theory Spec2Isabelle
  imports Complex_Main "HOL-Library.Sublist"
begin

section \<open>Python values shared by the two source files\<close>

text \<open>
  Exceptions of the source are values: every function that can raise returns
  \<open>py_error + 'a\<close>, with \<open>Inl\<close> for the exception.
\<close>

datatype py_error =
  IndexError | KeyError | ZeroDivisionError | ValueError | LibraryError | NonFiniteCast

text \<open>
  \<open>LibraryError\<close> stands for an exception raised inside \<open>torch\<close> or \<open>einops\<close> (a
  negative dimension, shapes that do not fit); its Python class is not modelled.
  \<open>NonFiniteCast\<close> is not a Python exception: it marks the places where the source
  converts a floating-point infinity or NaN to an integer, whose value is unspecified.
\<close>

definition then_do :: "py_error + 'a \<Rightarrow> ('a \<Rightarrow> py_error + 'b) \<Rightarrow> py_error + 'b" where
  "then_do m f = (case m of Inl e \<Rightarrow> Inl e | Inr x \<Rightarrow> f x)"

text \<open>
  A Python \<open>dict\<close> keeps insertion order, which \<open>list(examples.keys())[0]\<close> reads, so it
  is an association list. Assigning to a present key keeps its position; assigning to an
  absent key appends.
\<close>

type_synonym 'v dict = "(string \<times> 'v) list"

definition dict_get :: "'v dict \<Rightarrow> string \<Rightarrow> py_error + 'v" where
  "dict_get d k = (case map_of d k of None \<Rightarrow> Inl KeyError | Some v \<Rightarrow> Inr v)"

fun dict_set :: "'v dict \<Rightarrow> string \<Rightarrow> 'v \<Rightarrow> 'v dict" where
  "dict_set [] k v = [(k, v)]"
| "dict_set ((k', v') # d) k v =
     (if k' = k then (k, v) # d else (k', v') # dict_set d k v)"

text \<open>\<open>range(start, stop, step)\<close>: a zero step raises \<open>ValueError\<close>.\<close>

definition py_range :: "int \<Rightarrow> int \<Rightarrow> int \<Rightarrow> py_error + int list" where
  "py_range start stop step =
     (if step = 0 then Inl ValueError
      else if 0 < step then
        Inr (map (\<lambda>k. start + int k * step) [0..<nat ((stop - start + step - 1) div step)])
      else
        Inr (map (\<lambda>k. start + int k * step) [0..<nat ((start - stop - step - 1) div (- step))]))"

text \<open>\<open>t[i : j]\<close>: negative bounds count from the end, and both bounds are clipped.\<close>

definition py_slice :: "'a list \<Rightarrow> int \<Rightarrow> int \<Rightarrow> 'a list" where
  "py_slice t i j =
     (let n = int (length t);
          lo = (if i < 0 then max (i + n) 0 else min i n);
          hi = (if j < 0 then max (j + n) 0 else min j n)
      in take (nat (hi - lo)) (drop (nat lo) t))"

section \<open>The packing function \<open>tokenize\<close> of \<open>stream_dataloader.py\<close>\<close>

text \<open>
  \<open>examples\<close> is what the tokenizer returned for the batch (line 48): one column per
  key, each column one token list per example. The tokenizer itself is outside the
  repository. \<open>seq_length\<close> is \<open>args.tokenizer_seq_length\<close>, read inside the function
  on every call (line 47).
\<close>

definition packed :: "int \<Rightarrow> int list list dict \<Rightarrow> py_error + int list list dict" where
  "packed seq_length examples =
     (let concatenated_examples = map (\<lambda>(k, v). (k, concat v)) examples in
      case examples of
        [] \<Rightarrow> Inl IndexError
      | (k0, _) # _ \<Rightarrow>
        (case dict_get concatenated_examples k0 of
           Inl e \<Rightarrow> Inl e
         | Inr t0 \<Rightarrow>
           (case (if seq_length \<le> int (length t0)
                  then (if seq_length = 0 then Inl ZeroDivisionError
                        else Inr ((int (length t0) div seq_length) * seq_length))
                  else Inr (int (length t0))) of
              Inl e \<Rightarrow> Inl e
            | Inr total_length \<Rightarrow>
              (case py_range 0 total_length seq_length of
                 Inl e \<Rightarrow> Inl e
               | Inr idx \<Rightarrow>
                 Inr (map (\<lambda>(k, t). (k, map (\<lambda>i. py_slice t i (i + seq_length)) idx))
                          concatenated_examples)))))"

text \<open>
  \<open>packed\<close> is \<open>result\<close> as lines 47 to 57 build it; line 59 adds the \<open>labels\<close> column.
  In this value model a copy of a list is the list; the store model below keeps the
  identity of the list objects.
\<close>

definition tokenize :: "int \<Rightarrow> int list list dict \<Rightarrow> py_error + int list list dict" where
  "tokenize seq_length examples =
     (case packed seq_length examples of
        Inl e \<Rightarrow> Inl e
      | Inr result \<Rightarrow>
        (case dict_get result ''input_ids'' of
           Inl e \<Rightarrow> Inl e
         | Inr ids \<Rightarrow> Inr (dict_set result ''labels'' ids)))"

text \<open>
  \<open>.map(tokenize, batched = True)\<close> (lines 70 and 79) calls \<open>tokenize\<close> once per batch
  of the stream; the calls share nothing. The stream of emitted \<open>input_ids\<close> blocks is
  the blocks of each call, in order; a call that raises ends the stream with the error.
\<close>

definition emitted :: "string \<Rightarrow> int \<Rightarrow> int list list dict \<Rightarrow> py_error + int list list" where
  "emitted k seq_length examples =
     (case tokenize seq_length examples of
        Inl e \<Rightarrow> Inl e
      | Inr result \<Rightarrow> dict_get result k)"

fun map_batched :: "string \<Rightarrow> int \<Rightarrow> int list list dict list \<Rightarrow> py_error + int list list" where
  "map_batched k seq_length [] = Inr []"
| "map_batched k seq_length (b # bs) =
     (case emitted k seq_length b of
        Inl e \<Rightarrow> Inl e
      | Inr blocks \<Rightarrow>
        (case map_batched k seq_length bs of
           Inl e \<Rightarrow> Inl e
         | Inr rest \<Rightarrow> Inr (blocks @ rest)))"

text \<open>
  The shape of what \<open>tokenize\<close> builds when \<open>seq_length\<close> is positive: \<open>chunks l c t\<close>
  is the list of the \<open>c\<close> slices \<open>t[0:l], t[l:2l], \<dots>\<close>, and \<open>block_count\<close> is the
  number of indices \<open>range(0, total_length, seq_length)\<close> yields for a column of \<open>n\<close> tokens.
\<close>

definition chunks :: "nat \<Rightarrow> nat \<Rightarrow> 'a list \<Rightarrow> 'a list list" where
  "chunks l c t = map (\<lambda>k. take l (drop (k * l) t)) [0..<c]"

definition block_count :: "int \<Rightarrow> nat \<Rightarrow> nat" where
  "block_count L n = (if L \<le> int n then n div nat L else if 0 < n then 1 else 0)"

section \<open>The construction of the dataloaders\<close>

text \<open>
  \<open>stream_dataloaders\<close> (lines 9 to 101) builds everything lazily: the datasets are
  streamed, \<open>.map(tokenize, batched = True)\<close> only records the function, and no batch
  is packed before a dataloader is iterated. The class \<open>CFG\<close> is not among the sources;
  the record has the two fields of \<open>args\<close> that the packing and the dataloaders read.
  The fields that choose the datasets, the columns, the seed and the buffers are left
  out, with the loading and shuffling of the external datasets.
\<close>

record CFG =
  tokenizer_seq_length :: int
  batch_size :: int

text \<open>
  \<open>DataLoader(dataset, drop_last = True, batch_size = b)\<close> refuses a batch size that is
  not positive with \<open>ValueError\<close>, when it is built. The mapped dataset is the function
  that will be applied to each batch of examples.
\<close>

record DataLoader =
  dataset :: "int list list dict \<Rightarrow> py_error + int list list dict"
  loader_batch_size :: nat
  drop_last :: bool

definition DataLoader_init ::
    "(int list list dict \<Rightarrow> py_error + int list list dict) \<Rightarrow> int \<Rightarrow> py_error + DataLoader" where
  "DataLoader_init ds b =
     (if b \<le> 0 then Inl ValueError
      else Inr \<lparr>dataset = ds, loader_batch_size = nat b, drop_last = True\<rparr>)"

definition stream_dataloaders :: "CFG \<Rightarrow> py_error + DataLoader \<times> DataLoader" where
  "stream_dataloaders args =
     (let tokenized_train_dataset = tokenize (tokenizer_seq_length args);
          tokenized_eval_dataset = tokenize (tokenizer_seq_length args)
      in then_do (DataLoader_init tokenized_train_dataset (batch_size args))
           (\<lambda>train_dataloader.
         then_do (DataLoader_init tokenized_eval_dataset (batch_size args))
           (\<lambda>eval_dataloader.
         Inr (train_dataloader, eval_dataloader))))"

section \<open>The list objects that \<open>tokenize\<close> returns\<close>

text \<open>
  Whether two columns of the result are the same object, or share their blocks, cannot
  be seen in the value model, so the result is also built in a store. A block (a list of
  token ids) lives at an address of \<open>blocks\<close>; a column (a list of blocks, as
  \<open>result[k]\<close> is) lives at an address of \<open>columns\<close> and holds the addresses of its
  blocks. Creating a list takes the next free address. Python integers are immutable,
  so a block holds its integers themselves. Mutating a list object in place replaces
  what the store holds at its address.
\<close>

record store =
  blocks :: "int list list"
  columns :: "nat list list"

text \<open>
  A list comprehension over slices (line 55) creates one new block per slice and one
  new column holding them.
\<close>

definition new_column :: "store \<Rightarrow> int list list \<Rightarrow> store \<times> nat" where
  "new_column s bs =
     (s\<lparr>blocks := blocks s @ bs,
        columns := columns s @ [[length (blocks s) ..< length (blocks s) + length bs]]\<rparr>,
      length (columns s))"

fun new_dict :: "store \<Rightarrow> int list list dict \<Rightarrow> store \<times> nat dict" where
  "new_dict s [] = (s, [])"
| "new_dict s ((k, bs) # d) =
     (case new_column s bs of (s1, c) \<Rightarrow>
        (case new_dict s1 d of (s2, refs) \<Rightarrow> (s2, (k, c) # refs)))"

text \<open>
  \<open>copy.deepcopy\<close> of a column: every block is copied to a new block, except that a
  block met a second time is not copied again (the memo of \<open>deepcopy\<close> maps the address
  of a copied block to the address of its copy); the copies go into a new column.
\<close>

fun copy_blocks :: "store \<Rightarrow> (nat \<times> nat) list \<Rightarrow> nat list \<Rightarrow> store \<times> nat list" where
  "copy_blocks s memo [] = (s, [])"
| "copy_blocks s memo (a # as) =
     (case map_of memo a of
        Some c \<Rightarrow> (case copy_blocks s memo as of (s', cs) \<Rightarrow> (s', c # cs))
      | None \<Rightarrow>
          (case copy_blocks (s\<lparr>blocks := blocks s @ [blocks s ! a]\<rparr>)
                            ((a, length (blocks s)) # memo) as of
             (s', cs) \<Rightarrow> (s', length (blocks s) # cs)))"

definition deepcopy :: "store \<Rightarrow> nat \<Rightarrow> store \<times> nat" where
  "deepcopy s c =
     (case copy_blocks s [] (columns s ! c) of
        (s1, cs) \<Rightarrow> (s1\<lparr>columns := columns s1 @ [cs]\<rparr>, length (columns s1)))"

text \<open>The value of the column at an address: its blocks, in order.\<close>

definition load :: "store \<Rightarrow> nat \<Rightarrow> int list list" where
  "load s c = map (\<lambda>a. blocks s ! a) (columns s ! c)"

text \<open>
  \<open>tokenize\<close> in the store: \<open>result\<close> is built from the slices, and line 59 binds the
  key \<open>labels\<close> to the deep copy of the column bound to \<open>input_ids\<close>. The dictionary
  returned maps each key to the address of its column.
\<close>

definition tokenize_store :: "int \<Rightarrow> int list list dict \<Rightarrow> py_error + store \<times> nat dict" where
  "tokenize_store seq_length examples =
     (case packed seq_length examples of
        Inl e \<Rightarrow> Inl e
      | Inr result \<Rightarrow>
        (case new_dict \<lparr>blocks = [], columns = []\<rparr> result of
           (s, refs) \<Rightarrow>
             (case dict_get refs ''input_ids'' of
                Inl e \<Rightarrow> Inl e
              | Inr ids \<Rightarrow>
                (case deepcopy s ids of
                   (s', labels) \<Rightarrow> Inr (s', dict_set refs ''labels'' labels)))))"

text \<open>A store is well formed when every column holds addresses of existing blocks.\<close>

definition wf_store :: "store \<Rightarrow> bool" where
  "wf_store s = (\<forall>c < length (columns s). \<forall>a \<in> set (columns s ! c). a < length (blocks s))"

section \<open>The relative position bucket of \<open>lamda_pytorch.py\<close>\<close>

text \<open>\<open>.long()\<close> converts a float to an integer by dropping the fraction.\<close>

definition long :: "real \<Rightarrow> int" where
  "long x = (if 0 \<le> x then \<lfloor>x\<rfloor> else \<lceil>x\<rceil>)"

text \<open>
  \<open>T5RelativePositionBias._relative_position_bucket\<close> (lines 73 to 87) works on a
  tensor of relative positions, entry by entry; \<open>bucket_entry\<close> is what it computes for
  one entry. The tensor operations never raise. Where the entry that \<open>torch.where\<close>
  selects comes from an infinity or a NaN (the logarithm of a non-positive number, a
  division by \<open>log 1 = 0\<close>), the entry is \<open>NonFiniteCast\<close>. The source computes the
  logarithms, the quotient and the product in floating point; here they are computed in
  the reals. The positions are 64-bit integers: negating the least of them gives it
  back, which \<open>neg64\<close> writes out.
\<close>

definition neg64 :: "int \<Rightarrow> int" where
  "neg64 x = (if x = - (2 ^ 63) then x else - x)"

definition bucket_entry :: "int \<Rightarrow> int \<Rightarrow> int \<Rightarrow> py_error + int" where
  "bucket_entry relative_position num_buckets max_distance =
     (let n = neg64 relative_position;
          n = max n 0;
          max_exact = num_buckets div 2;
          is_small = n < max_exact
      in if is_small then Inr n
         else if real_of_int n / real_of_int max_exact \<le> 0
                 \<or> ln (real_of_int max_distance / real_of_int max_exact) = 0
              then Inl NonFiniteCast
         else
           (let val_if_large =
                  max_exact
                  + long (ln (real_of_int n / real_of_int max_exact)
                          / ln (real_of_int max_distance / real_of_int max_exact)
                          * real_of_int (num_buckets - max_exact));
                val_if_large = min val_if_large (num_buckets - 1)
            in Inr val_if_large))"

fun all_or_error :: "(py_error + 'a) list \<Rightarrow> py_error + 'a list" where
  "all_or_error [] = Inr []"
| "all_or_error (Inl e # rs) = Inl e"
| "all_or_error (Inr x # rs) = (case all_or_error rs of Inl e \<Rightarrow> Inl e | Inr xs \<Rightarrow> Inr (x # xs))"

text \<open>
  The whole call, on the entries of the tensor in row-major order. The Python-level
  expression \<open>math.log(max_distance / max_exact)\<close> raises whatever the tensor holds:
  \<open>ZeroDivisionError\<close> when \<open>max_exact\<close> is \<open>0\<close>, \<open>ValueError\<close> when the quotient is
  not positive.
\<close>

definition relative_position_bucket :: "int list \<Rightarrow> int \<Rightarrow> int \<Rightarrow> py_error + int list" where
  "relative_position_bucket relative_position num_buckets max_distance =
     (let max_exact = num_buckets div 2
      in if max_exact = 0 then Inl ZeroDivisionError
         else if real_of_int max_distance / real_of_int max_exact \<le> 0 then Inl ValueError
         else all_or_error
                (map (\<lambda>r. bucket_entry r num_buckets max_distance) relative_position))"

section \<open>The modules of \<open>lamda_pytorch.py\<close>\<close>

text \<open>
  The weights and activations of the network are floating-point tensors. What the
  constructors and forward passes do to the \<^emph>\<open>shapes\<close> of the tensors is exact integer
  arithmetic, and that is what is modelled: a module is the record of the sizes it was
  built with, and its forward pass maps the shape of its input to the shape of its
  output, or to the exception that \<open>torch\<close> or \<open>einops\<close> raises when the sizes do not
  fit. \<open>nn.Dropout\<close> (always built with probability \<open>0.\<close>) keeps shapes and never
  raises; it is left out.
\<close>

type_synonym shape = "nat list"

subsection \<open>Library modules\<close>

text \<open>A parameter tensor with a negative dimension cannot be allocated; size 0 can.\<close>

record Linear =
  in_features :: nat
  out_features :: nat
  has_bias :: bool

definition Linear_init :: "int \<Rightarrow> int \<Rightarrow> bool \<Rightarrow> py_error + Linear" where
  "Linear_init n_in n_out b =
     (if n_in < 0 \<or> n_out < 0 then Inl LibraryError
      else Inr \<lparr>in_features = nat n_in, out_features = nat n_out, has_bias = b\<rparr>)"

definition Linear_forward :: "Linear \<Rightarrow> shape \<Rightarrow> py_error + shape" where
  "Linear_forward l x =
     (if x = [] \<or> last x \<noteq> in_features l then Inl LibraryError
      else Inr (butlast x @ [out_features l]))"

record LayerNorm =
  normalized_shape :: nat

definition LayerNorm_init :: "int \<Rightarrow> py_error + LayerNorm" where
  "LayerNorm_init dim' =
     (if dim' < 0 then Inl LibraryError else Inr \<lparr>normalized_shape = nat dim'\<rparr>)"

definition LayerNorm_forward :: "LayerNorm \<Rightarrow> shape \<Rightarrow> py_error + shape" where
  "LayerNorm_forward n x =
     (if x = [] \<or> last x \<noteq> normalized_shape n then Inl LibraryError else Inr x)"

record Embedding =
  num_embeddings :: nat
  embedding_dim :: nat

definition Embedding_init :: "int \<Rightarrow> int \<Rightarrow> py_error + Embedding" where
  "Embedding_init n d =
     (if n < 0 \<or> d < 0 then Inl LibraryError
      else Inr \<lparr>num_embeddings = nat n, embedding_dim = nat d\<rparr>)"

text \<open>
  An embedding lookup takes an integer tensor, here its shape and its entries, and
  raises \<open>IndexError\<close> for an entry outside \<open>[0, num_embeddings)\<close>.
\<close>

definition Embedding_forward :: "Embedding \<Rightarrow> shape \<Rightarrow> int list \<Rightarrow> py_error + shape" where
  "Embedding_forward e x entries =
     (if \<exists>i \<in> set entries. i < 0 \<or> int (num_embeddings e) \<le> i then Inl IndexError
      else Inr (x @ [embedding_dim e]))"

subsection \<open>Tensor operations\<close>

text \<open>Broadcasting of two shapes, aligned at the last dimension.\<close>

fun broadcast_rev :: "nat list \<Rightarrow> nat list \<Rightarrow> py_error + nat list" where
  "broadcast_rev [] ys = Inr ys"
| "broadcast_rev (x # xs) [] = Inr (x # xs)"
| "broadcast_rev (x # xs) (y # ys) =
     (if x = y \<or> y = 1 then then_do (broadcast_rev xs ys) (\<lambda>r. Inr (x # r))
      else if x = 1 then then_do (broadcast_rev xs ys) (\<lambda>r. Inr (y # r))
      else Inl LibraryError)"

definition broadcast :: "shape \<Rightarrow> shape \<Rightarrow> py_error + shape" where
  "broadcast x y = then_do (broadcast_rev (rev x) (rev y)) (\<lambda>r. Inr (rev r))"

text \<open>
  \<open>a, b = x.chunk(2, dim = -1)\<close>: the last dimension is cut into pieces of
  \<open>ceil(d / 2)\<close>; a last dimension of size 1 gives one piece only, and the unpacking into
  two names raises \<open>ValueError\<close>.
\<close>

definition chunk2 :: "shape \<Rightarrow> py_error + shape \<times> shape" where
  "chunk2 x =
     (if x = [] then Inl IndexError
      else let d = last x; c = (d + 1) div 2
           in if d = 1 then Inl ValueError
              else Inr (butlast x @ [c], butlast x @ [d - c]))"

text \<open>\<open>rearrange(q, 'b n (h d) -> b h n d', h = h)\<close>\<close>

definition split_heads :: "shape \<Rightarrow> nat \<Rightarrow> py_error + shape" where
  "split_heads q h =
     (case q of
        [b, n, w] \<Rightarrow> if h = 0 \<or> w mod h \<noteq> 0 then Inl LibraryError
                      else Inr [b, h, n, w div h]
      | _ \<Rightarrow> Inl LibraryError)"

text \<open>\<open>rearrange(out, 'b h n d -> b n (h d)')\<close>\<close>

definition merge_heads :: "shape \<Rightarrow> py_error + shape" where
  "merge_heads out =
     (case out of [b, h, n, d] \<Rightarrow> Inr [b, n, h * d] | _ \<Rightarrow> Inl LibraryError)"

text \<open>In an \<open>einsum\<close>, two dimensions with the same index fit when equal or when one is 1.\<close>

definition fits :: "nat \<Rightarrow> nat \<Rightarrow> bool" where
  "fits a b = (a = b \<or> a = 1 \<or> b = 1)"

definition joined :: "nat \<Rightarrow> nat \<Rightarrow> nat" where
  "joined a b = (if a = 1 then b else a)"

text \<open>\<open>einsum('b h i d, b j d -> b h i j', q, k)\<close>\<close>

definition einsum_qk :: "shape \<Rightarrow> shape \<Rightarrow> py_error + shape" where
  "einsum_qk q k =
     (case (q, k) of
        ([b, h, i, d], [b', j, d']) \<Rightarrow>
          if fits b b' \<and> fits d d' then Inr [joined b b', h, i, j] else Inl LibraryError
      | _ \<Rightarrow> Inl LibraryError)"

text \<open>\<open>einsum('b h i j, b j d -> b h i d', attn, v)\<close>\<close>

definition einsum_av :: "shape \<Rightarrow> shape \<Rightarrow> py_error + shape" where
  "einsum_av attn v =
     (case (attn, v) of
        ([b, h, i, j], [b', j', d]) \<Rightarrow>
          if fits b b' \<and> fits j j' then Inr [joined b b', h, i, d] else Inl LibraryError
      | _ \<Rightarrow> Inl LibraryError)"

subsection \<open>\<open>Residual\<close> and \<open>PreNorm\<close>\<close>

text \<open>
  The two wrappers (lines 15 to 32) are the same for every kind of tensor value: \<open>add\<close>
  is the addition of the values, \<open>norm\<close> and \<open>fn\<close> the forward passes of the wrapped
  modules.
\<close>

definition Residual_forward :: "('t \<Rightarrow> 't \<Rightarrow> 't) \<Rightarrow> ('t \<Rightarrow> 't) \<Rightarrow> 't \<Rightarrow> 't" where
  "Residual_forward add fn x = add (fn x) x"

definition PreNorm_forward :: "('t \<Rightarrow> 't) \<Rightarrow> ('t \<Rightarrow> 't) \<Rightarrow> 't \<Rightarrow> 't" where
  "PreNorm_forward nrm fn x = fn (nrm x)"

datatype 'f Residual = Residual (res_fn: 'f)

record 'f PreNorm =
  pn_norm :: LayerNorm
  pn_fn :: 'f

definition PreNorm_init :: "int \<Rightarrow> 'f \<Rightarrow> py_error + 'f PreNorm" where
  "PreNorm_init dim' f = then_do (LayerNorm_init dim') (\<lambda>n. Inr \<lparr>pn_norm = n, pn_fn = f\<rparr>)"

subsection \<open>\<open>GEGLU\<close> and \<open>FeedForward\<close>\<close>

definition GEGLU_forward :: "shape \<Rightarrow> py_error + shape" where
  "GEGLU_forward x = then_do (chunk2 x) (\<lambda>(x, gates). broadcast x gates)"

record FeedForward =
  net_in :: Linear
  net_out :: Linear

definition FeedForward_init :: "int \<Rightarrow> py_error + FeedForward" where
  "FeedForward_init dim' =
     (let inner_dim = dim' * 4 in
      then_do (Linear_init dim' (inner_dim * 2) True) (\<lambda>l1.
      then_do (Linear_init inner_dim dim' True) (\<lambda>l2.
      Inr \<lparr>net_in = l1, net_out = l2\<rparr>)))"

definition FeedForward_forward :: "FeedForward \<Rightarrow> shape \<Rightarrow> py_error + shape" where
  "FeedForward_forward f x =
     then_do (Linear_forward (net_in f) x) (\<lambda>h.
     then_do (GEGLU_forward h) (\<lambda>g.
     Linear_forward (net_out f) g))"

subsection \<open>\<open>T5RelativePositionBias\<close>\<close>

record T5RelativePositionBias =
  bias_scale :: real
  num_buckets :: int
  max_distance :: int
  relative_attention_bias :: Embedding

definition T5RelativePositionBias_init ::
    "real \<Rightarrow> int \<Rightarrow> int \<Rightarrow> int \<Rightarrow> py_error + T5RelativePositionBias" where
  "T5RelativePositionBias_init scl nb md heads =
     then_do (Embedding_init nb heads) (\<lambda>e.
     Inr \<lparr>bias_scale = scl, num_buckets = nb, max_distance = md,
          relative_attention_bias = e\<rparr>)"

text \<open>
  \<open>forward\<close> (lines 89 to 97): the relative positions \<open>k - q\<close> of an \<open>i\<close> by \<open>j\<close> score
  matrix are bucketed, the buckets are looked up in the embedding, and the bias of
  shape \<open>1, h, i, j\<close> is added to the scores.
\<close>

definition rel_pos :: "nat \<Rightarrow> nat \<Rightarrow> int list" where
  "rel_pos i j = concat (map (\<lambda>q. map (\<lambda>k. int k - int q) [0..<j]) [0..<i])"

definition T5RelativePositionBias_forward ::
    "T5RelativePositionBias \<Rightarrow> shape \<Rightarrow> py_error + shape" where
  "T5RelativePositionBias_forward t qk_dots =
     (case rev qk_dots of
        j # i # _ \<Rightarrow>
          then_do (relative_position_bucket (rel_pos i j) (num_buckets t) (max_distance t))
            (\<lambda>rp_bucket.
          then_do (Embedding_forward (relative_attention_bias t) [i, j] rp_bucket)
            (\<lambda>values.
          (case values of
             [i', j', h] \<Rightarrow> broadcast qk_dots [1, h, i', j']
           | _ \<Rightarrow> Inl LibraryError)))
      | _ \<Rightarrow> Inl ValueError)"

subsection \<open>\<open>Attention\<close>\<close>

record Attention =
  heads :: nat
  scale :: real
  to_q :: Linear
  to_kv :: Linear
  to_out :: Linear
  rel_pos_bias :: T5RelativePositionBias

text \<open>
  \<open>__init__\<close> (lines 102 to 121). \<open>dim_head ** -0.5\<close> raises \<open>ZeroDivisionError\<close> for
  \<open>dim_head = 0\<close>. For a negative \<open>dim_head\<close> Python returns a complex number, but then
  \<open>to_kv\<close> cannot be built, so the \<open>scale\<close> of a constructed layer is always the real
  power below. \<open>self.heads\<close> is not negative once the embedding of the bias is built.
\<close>

definition Attention_init :: "int \<Rightarrow> int \<Rightarrow> int \<Rightarrow> py_error + Attention" where
  "Attention_init dim' hds dim_head =
     (if dim_head = 0 then Inl ZeroDivisionError
      else let inner_dim = hds * dim_head in
        then_do (Linear_init dim' inner_dim False) (\<lambda>q.
        then_do (Linear_init dim' (dim_head * 2) False) (\<lambda>kv.
        then_do (Linear_init inner_dim dim' True) (\<lambda>out.
        then_do (T5RelativePositionBias_init (real_of_int dim_head powr (1 / 2)) 32 128 hds)
          (\<lambda>rel.
        Inr \<lparr>heads = nat hds, scale = real_of_int dim_head powr (- 1 / 2),
             to_q = q, to_kv = kv, to_out = out, rel_pos_bias = rel\<rparr>)))))"

text \<open>
  The causal mask of line 138, \<open>torch.ones((i, j)).triu(j - i + 1)\<close>: entry \<open>(r, c)\<close> is
  set when \<open>c - r \<ge> j - i + 1\<close>. Filling the masked scores and the softmax keep the
  shape.
\<close>

definition causal_mask :: "nat \<Rightarrow> nat \<Rightarrow> bool list list" where
  "causal_mask i j =
     map (\<lambda>r. map (\<lambda>c. int j - int i + 1 \<le> int c - int r) [0..<j]) [0..<i]"

text \<open>Lines 126 to 129: the queries, split into heads, and the keys and values.\<close>

definition Attention_qkv :: "Attention \<Rightarrow> shape \<Rightarrow> py_error + shape \<times> shape \<times> shape" where
  "Attention_qkv a x =
     then_do (Linear_forward (to_q a) x) (\<lambda>q.
     then_do (Linear_forward (to_kv a) x) (\<lambda>kv.
     then_do (chunk2 kv) (\<lambda>(k, v).
     then_do (split_heads q (heads a)) (\<lambda>q.
     Inr (q, k, v)))))"

definition Attention_forward :: "Attention \<Rightarrow> shape \<Rightarrow> py_error + shape" where
  "Attention_forward a x =
     then_do (Attention_qkv a x) (\<lambda>(q, k, v).
     then_do (einsum_qk q k) (\<lambda>sim.
     then_do (T5RelativePositionBias_forward (rel_pos_bias a) sim) (\<lambda>sim.
     then_do (einsum_av sim v) (\<lambda>out.
     then_do (merge_heads out) (\<lambda>out.
     Linear_forward (to_out a) out)))))"

subsection \<open>\<open>Transformer\<close>\<close>

type_synonym layer = "Attention PreNorm Residual \<times> FeedForward PreNorm Residual"

record Transformer =
  layers :: "layer list"

definition layer_init :: "int \<Rightarrow> int \<Rightarrow> int \<Rightarrow> py_error + layer" where
  "layer_init dim' hds dim_head =
     then_do (Attention_init dim' hds dim_head) (\<lambda>a.
     then_do (PreNorm_init dim' a) (\<lambda>pa.
     then_do (FeedForward_init dim') (\<lambda>f.
     then_do (PreNorm_init dim' f) (\<lambda>pf.
     Inr (Residual pa, Residual pf)))))"

text \<open>The loop \<open>for _ in range(depth)\<close> of line 156 runs \<open>nat depth\<close> times.\<close>

fun build_layers :: "nat \<Rightarrow> int \<Rightarrow> int \<Rightarrow> int \<Rightarrow> py_error + layer list" where
  "build_layers 0 dim' hds dim_head = Inr []"
| "build_layers (Suc k) dim' hds dim_head =
     then_do (layer_init dim' hds dim_head) (\<lambda>l.
     then_do (build_layers k dim' hds dim_head) (\<lambda>ls.
     Inr (l # ls)))"

definition Transformer_init :: "int \<Rightarrow> int \<Rightarrow> int \<Rightarrow> int \<Rightarrow> py_error + Transformer" where
  "Transformer_init dim' depth hds dim_head =
     then_do (build_layers (nat depth) dim' hds dim_head) (\<lambda>ls. Inr \<lparr>layers = ls\<rparr>)"

text \<open>\<open>forward\<close> (lines 161 to 165), over the forward passes of the wrapped layers.\<close>

fun Transformer_forward :: "(('t \<Rightarrow> 't) \<times> ('t \<Rightarrow> 't)) list \<Rightarrow> 't \<Rightarrow> 't" where
  "Transformer_forward [] x = x"
| "Transformer_forward ((attn, ff) # ls) x = Transformer_forward ls (ff (attn x))"

text \<open>
  What the modules of a layer compute is given by a \<open>semantics\<close>: the addition of
  tensor values and, for the layer at each position of the stack (which has its own
  weights), the forward passes of its two norms, its attention and its feed-forward
  module.
\<close>

record 't semantics =
  add_sem :: "'t \<Rightarrow> 't \<Rightarrow> 't"
  attn_norm_sem :: "nat \<Rightarrow> LayerNorm \<Rightarrow> 't \<Rightarrow> 't"
  attn_sem :: "nat \<Rightarrow> Attention \<Rightarrow> 't \<Rightarrow> 't"
  ff_norm_sem :: "nat \<Rightarrow> LayerNorm \<Rightarrow> 't \<Rightarrow> 't"
  ff_sem :: "nat \<Rightarrow> FeedForward \<Rightarrow> 't \<Rightarrow> 't"

definition layer_fns :: "'t semantics \<Rightarrow> nat \<times> layer \<Rightarrow> ('t \<Rightarrow> 't) \<times> ('t \<Rightarrow> 't)" where
  "layer_fns S il =
     (case il of (i, attn, ff) \<Rightarrow>
        (Residual_forward (add_sem S)
           (PreNorm_forward (attn_norm_sem S i (pn_norm (res_fn attn)))
                            (attn_sem S i (pn_fn (res_fn attn)))),
         Residual_forward (add_sem S)
           (PreNorm_forward (ff_norm_sem S i (pn_norm (res_fn ff)))
                            (ff_sem S i (pn_fn (res_fn ff))))))"

definition Transformer_fns :: "'t semantics \<Rightarrow> Transformer \<Rightarrow> (('t \<Rightarrow> 't) \<times> ('t \<Rightarrow> 't)) list" where
  "Transformer_fns S t = map (layer_fns S) (enumerate 0 (layers t))"

text \<open>The semantics of shapes: a value is a shape or the exception raised so far.\<close>

definition shape_semantics :: "(py_error + shape) semantics" where
  "shape_semantics =
     \<lparr>add_sem = (\<lambda>a b. then_do a (\<lambda>x. then_do b (\<lambda>y. broadcast x y))),
      attn_norm_sem = (\<lambda>i n x. then_do x (LayerNorm_forward n)),
      attn_sem = (\<lambda>i a x. then_do x (Attention_forward a)),
      ff_norm_sem = (\<lambda>i n x. then_do x (LayerNorm_forward n)),
      ff_sem = (\<lambda>i f x. then_do x (FeedForward_forward f))\<rparr>"

subsection \<open>\<open>LaMDA\<close>\<close>

record LaMDA =
  token_emb :: Embedding
  transformer :: Transformer
  to_logits_norm :: LayerNorm
  to_logits_linear :: Linear

text \<open>
  \<open>__init__\<close> (lines 170 to 179). Line 174 passes \<open>dim_head\<close> and \<open>heads\<close> to
  \<open>Transformer\<close> by position, in this order.
\<close>

definition LaMDA_init :: "int \<Rightarrow> int \<Rightarrow> int \<Rightarrow> int \<Rightarrow> int \<Rightarrow> py_error + LaMDA" where
  "LaMDA_init num_tokens dim' depth dim_head hds =
     then_do (Embedding_init num_tokens dim') (\<lambda>e.
     then_do (Transformer_init dim' depth dim_head hds) (\<lambda>t.
     then_do (LayerNorm_init dim') (\<lambda>n.
     then_do (Linear_init dim' num_tokens True) (\<lambda>l.
     Inr \<lparr>token_emb = e, transformer = t, to_logits_norm = n, to_logits_linear = l\<rparr>))))"

text \<open>\<open>forward\<close> (lines 181 to 185), on the shape and the entries of the token tensor.\<close>

definition LaMDA_forward :: "LaMDA \<Rightarrow> shape \<Rightarrow> int list \<Rightarrow> py_error + shape" where
  "LaMDA_forward m x entries =
     then_do (Embedding_forward (token_emb m) x entries) (\<lambda>x.
     then_do (Transformer_forward (Transformer_fns shape_semantics (transformer m)) (Inr x))
       (\<lambda>x.
     then_do (LayerNorm_forward (to_logits_norm m) x) (\<lambda>x.
     Linear_forward (to_logits_linear m) x)))"

section \<open>Properties of the packing function\<close>

subsection \<open>Dictionaries, ranges and slices\<close>

lemma map_of_dict_set: "map_of (dict_set d k v) = (map_of d)(k \<mapsto> v)"
  by (induction d k v rule: dict_set.induct) (auto simp: fun_eq_iff)

lemma dict_get_dict_set:
  "dict_get (dict_set d k v) k' = (if k' = k then Inr v else dict_get d k')"
  by (simp add: dict_get_def map_of_dict_set)

lemma py_slice_nat:
  "py_slice t (int a) (int a + int l) = take l (drop a t)"
proof (cases "a \<le> length t")
  case True
  have "nat (min (int a + int l) (int (length t)) - int a) = min l (length t - a)"
    using True by (simp add: min_def) linarith
  moreover have "take (min l (length t - a)) (drop a t) = take l (drop a t)"
    by (simp add: min_def)
  ultimately show ?thesis using True by (simp add: py_slice_def Let_def min_absorb1)
next
  case False
  then show ?thesis by (simp add: py_slice_def Let_def min_def)
qed

lemma py_slice_chunk:
  assumes "0 < L"
  shows "py_slice t (int k * L) (int k * L + L) = take (nat L) (drop (k * nat L) t)"
proof -
  obtain l where l: "L = int l" using assms by (metis nat_0_le less_imp_le)
  have "py_slice t (int (k * l)) (int (k * l) + int l) = take l (drop (k * l) t)"
    by (rule py_slice_nat)
  then show ?thesis by (simp add: l)
qed

lemma py_range_packed:
  assumes "0 < L"
  shows "py_range 0 stop L = Inr (map (\<lambda>k. int k * L) [0..<nat ((stop + L - 1) div L)])"
  using assms by (simp add: py_range_def)

lemma slices_chunks:
  assumes "0 < L"
  shows "map (\<lambda>i. py_slice t i (i + L)) (map (\<lambda>k. int k * L) [0..<c]) = chunks (nat L) c t"
  using assms by (simp add: chunks_def py_slice_chunk o_def)

lemma total_count:
  assumes "0 < L"
  shows "nat (((if L \<le> int n then (int n div L) * L else int n) + L - 1) div L) = block_count L n"
proof (cases "L \<le> int n")
  case True
  have "((int n div L) * L + (L - 1)) div L = int n div L + (L - 1) div L"
    using assms by simp
  moreover have "(L - 1) div L = 0" using assms by (simp add: div_pos_pos_trivial)
  ultimately have "((int n div L) * L + L - 1) div L = int n div L"
    by (simp add: algebra_simps)
  then show ?thesis using True assms by (simp add: block_count_def nat_div_distrib)
next
  case False
  show ?thesis
  proof (cases "0 < n")
    case True
    have "(int n + L - 1) div L = (L + (int n - 1)) div L" by (simp add: algebra_simps)
    also have "\<dots> = 1 + (int n - 1) div L" using assms by simp
    also have "(int n - 1) div L = 0" using True False by (simp add: div_pos_pos_trivial)
    finally show ?thesis using True False by (simp add: block_count_def)
  next
    case n0: False
    then show ?thesis using False assms by (simp add: block_count_def div_pos_pos_trivial)
  qed
qed


lemma dict_get_map:
  "dict_get (map (\<lambda>(k, v). (k, f v)) d) k =
     (case dict_get d k of Inl e \<Rightarrow> Inl e | Inr v \<Rightarrow> Inr (f v))"
  by (simp add: dict_get_def map_of_map split: option.splits)

subsection \<open>Chunks\<close>

lemma concat_chunks: "concat (chunks l c t) = take (c * l) t"
proof (induction c)
  case 0
  then show ?case by (simp add: chunks_def)
next
  case (Suc c)
  have "concat (chunks l (Suc c) t) = concat (chunks l c t) @ take l (drop (c * l) t)"
    by (simp add: chunks_def)
  also have "\<dots> = take (c * l) t @ take l (drop (c * l) t)"
    by (simp add: Suc.IH)
  also have "\<dots> = take (c * l + l) t"
    by (simp add: take_add)
  finally show ?case by (simp add: add.commute)
qed

lemma length_chunks: "length (chunks l c t) = c"
  by (simp add: chunks_def)

lemma chunks_full:
  assumes "c * l \<le> length t" and "b \<in> set (chunks l c t)"
  shows "length b = l"
proof -
  from assms(2) obtain k where k: "k < c" and b: "b = take l (drop (k * l) t)"
    by (auto simp: chunks_def)
  from k have "Suc k * l \<le> c * l" by (simp add: Suc_leI mult_le_mono1 del: mult_Suc)
  with assms(1) have "k * l + l \<le> length t" by simp
  then show ?thesis by (simp add: b)
qed

lemma block_count_fits:
  assumes "0 < L" and "L \<le> int n"
  shows "block_count L n * nat L \<le> n"
  using assms by (simp add: block_count_def)

lemma block_count_drops:
  assumes "0 < L"
  shows "n - block_count L n * nat L < nat L"
proof (cases "L \<le> int n")
  case True
  have "n - n div nat L * nat L = n mod nat L"
    by (simp add: minus_div_mult_eq_mod)
  then show ?thesis using True assms by (simp add: block_count_def)
next
  case False
  then show ?thesis using assms by (auto simp: block_count_def)
qed

subsection \<open>What one call of \<open>tokenize\<close> returns\<close>

lemma tokenize_packed:
  assumes L: "0 < L"
    and first: "examples = (k0, v0) # rest"
    and ids: "dict_get examples ''input_ids'' = Inr v"
  shows "tokenize L examples =
           Inr (dict_set
                  (map (\<lambda>(k, w). (k, chunks (nat L) (block_count L (length (concat v0))) (concat w)))
                       examples)
                  ''labels''
                  (chunks (nat L) (block_count L (length (concat v0))) (concat v)))"
proof -
  let ?n = "length (concat v0)"
  let ?c = "block_count L ?n"
  have t0: "dict_get (map (\<lambda>(k, v). (k, concat v)) examples) k0 = Inr (concat v0)"
    by (simp add: first dict_get_def)
  have tl: "(if L \<le> int ?n then (if L = 0 then Inl ZeroDivisionError
                                    else Inr ((int ?n div L) * L))
             else Inr (int ?n))
            = (Inr (if L \<le> int ?n then (int ?n div L) * L else int ?n) :: py_error + int)"
    using L by simp
  have rg: "py_range 0 (if L \<le> int ?n then (int ?n div L) * L else int ?n) L
              = Inr (map (\<lambda>k. int k * L) [0..<?c])"
    using py_range_packed [OF L] total_count [OF L, of ?n] by simp
  have res: "map (\<lambda>(k, t). (k, map (\<lambda>i. py_slice t i (i + L)) (map (\<lambda>k. int k * L) [0..<?c])))
                 (map (\<lambda>(k, v). (k, concat v)) examples)
             = map (\<lambda>(k, w). (k, chunks (nat L) ?c (concat w))) examples"
    unfolding slices_chunks [OF L] by (simp add: case_prod_beta)
  have got: "dict_get (map (\<lambda>(k, w). (k, chunks (nat L) ?c (concat w))) examples) ''input_ids''
             = Inr (chunks (nat L) ?c (concat v))"
    using ids dict_get_map [of "\<lambda>w. chunks (nat L) ?c (concat w)" examples "''input_ids''"]
    by simp
  have "packed L ((k0, v0) # rest) =
          Inr (map (\<lambda>(k, w). (k, chunks (nat L) ?c (concat w))) ((k0, v0) # rest))"
    unfolding packed_def Let_def
    using t0 tl rg res unfolding first
    by (simp del: map_map list.map)
  then have "tokenize L ((k0, v0) # rest) =
          Inr (dict_set (map (\<lambda>(k, w). (k, chunks (nat L) ?c (concat w))) ((k0, v0) # rest))
                 ''labels'' (chunks (nat L) ?c (concat v)))"
    unfolding tokenize_def using got unfolding first
    by (simp del: map_map list.map)
  then show ?thesis by (simp add: first)
qed

lemma emitted_packed:
  assumes L: "0 < L"
    and first: "examples = (k0, v0) # rest"
    and ids: "dict_get examples ''input_ids'' = Inr v"
    and col: "dict_get examples k = Inr w"
    and k: "k \<noteq> ''labels''"
  shows "emitted k L examples = Inr (chunks (nat L) (block_count L (length (concat v0))) (concat w))"
  using col k
    dict_get_map [of "\<lambda>w. chunks (nat L) (block_count L (length (concat v0))) (concat w)" examples k]
  by (simp add: emitted_def tokenize_packed [OF L first ids] dict_get_dict_set)

lemma emitted_labels:
  assumes L: "0 < L"
    and first: "examples = (k0, v0) # rest"
    and ids: "dict_get examples ''input_ids'' = Inr v"
  shows "emitted ''labels'' L examples
           = Inr (chunks (nat L) (block_count L (length (concat v0))) (concat v))"
  by (simp add: emitted_def tokenize_packed [OF L first ids] dict_get_dict_set)

subsection \<open>Block lengths\<close>

lemma emitted_full_blocks:
  assumes L: "0 < L"
    and first: "examples = (k0, v0) # rest"
    and ids: "dict_get examples ''input_ids'' = Inr v"
    and col: "dict_get examples k = Inr w"
    and k: "k \<noteq> ''labels''"
    and same: "length (concat w) = length (concat v0)"
    and enough: "L \<le> int (length (concat v0))"
    and out: "emitted k L examples = Inr bs"
    and b: "b \<in> set bs"
  shows "length b = nat L"
proof -
  let ?c = "block_count L (length (concat v0))"
  have "bs = chunks (nat L) ?c (concat w)"
    using emitted_packed [OF L first ids col k] out by simp
  moreover have "?c * nat L \<le> length (concat w)"
    using block_count_fits [OF L enough] same by simp
  ultimately show ?thesis using chunks_full b by blast
qed

text \<open>
  C1. Every block emitted by the packing function for a target length \<open>L > 0\<close> has
  exactly \<open>L\<close> token ids, \<open>L\<close> mask entries and \<open>L\<close> labels, also when the batch holds
  fewer than \<open>L\<close> tokens. The source does not do this: the truncation of line 52 is
  skipped when the batch has fewer than \<open>seq_length\<close> tokens, and
  \<open>range(0, total_length, seq_length)\<close> then still yields the index \<open>0\<close>. For
  \<open>seq_length = 4\<close> and a batch of one example of three tokens, one block of three
  tokens is emitted in every column.
\<close>

theorem tokenize_emits_short_block:
  "tokenize 4 [(''input_ids'', [[1, 2, 3]]), (''attention_mask'', [[1, 1, 1]])]
     = Inr [(''input_ids'', [[1, 2, 3]]), (''attention_mask'', [[1, 1, 1]]),
            (''labels'', [[1, 2, 3]])]"
  by (simp add: tokenize_def packed_def dict_get_def py_range_def py_slice_def)

subsection \<open>Prefix reconstruction\<close>

text \<open>
  C2, as stated: over the whole stream the emitted token ids are a prefix of the input
  tokens, the remainder of a call is kept for the next call, and at most \<open>L - 1\<close> tokens
  are lost in total. It fails on two batches of seven tokens with \<open>L = 4\<close>: the second
  call starts from its own batch, tokens 5, 6, 7 are never emitted, the emitted ids are
  not a prefix of the input, and six tokens are lost.
\<close>

theorem map_batched_drops_every_remainder:
  "map_batched ''input_ids'' 4
     [[(''input_ids'', [[1, 2, 3, 4, 5, 6, 7]]), (''attention_mask'', [[1, 1, 1, 1, 1, 1, 1]])],
      [(''input_ids'', [[8, 9, 10, 11, 12, 13, 14]]), (''attention_mask'', [[1, 1, 1, 1, 1, 1, 1]])]]
     = Inr [[1, 2, 3, 4], [8, 9, 10, 11]]
   \<and> \<not> prefix (concat [[1, 2, 3, 4], [8, 9, 10, 11 :: int]])
               (concat [[1, 2, 3, 4, 5, 6, 7], [8, 9, 10, 11, 12, 13, 14]])
   \<and> length (concat [[1, 2, 3, 4, 5, 6, 7], [8, 9, 10, 11, 12, 13, 14 :: int]])
       - length (concat [[1, 2, 3, 4], [8, 9, 10, 11 :: int]]) > 4 - 1"
  by (simp add: emitted_def tokenize_def packed_def dict_get_def py_range_def py_slice_def)

text \<open>
  C2, amended: within one call with \<open>L > 0\<close>, the concatenation of the emitted
  \<open>input_ids\<close> blocks is a prefix of the concatenation of that call's input token
  sequences, fewer than \<open>L\<close> tokens of the call are left out, and when the call holds at
  least \<open>L\<close> tokens the emitted ids are exactly its first \<open>(total div L) * L\<close> tokens.
  (The first column of the tokenizer's output decides the count; it is as long as the
  \<open>input_ids\<close> column.)
\<close>

theorem emitted_prefix_per_call:
  assumes "0 < L"
    and "examples = (k0, v0) # rest"
    and "dict_get examples ''input_ids'' = Inr v"
    and "length (concat v0) = length (concat v)"
  shows "\<exists>bs. emitted ''input_ids'' L examples = Inr bs
           \<and> prefix (concat bs) (concat v)
           \<and> length (concat v) - length (concat bs) < nat L
           \<and> (L \<le> int (length (concat v))
                \<longrightarrow> concat bs = take (length (concat v) div nat L * nat L) (concat v))"
proof -
  let ?c = "block_count L (length (concat v))"
  let ?bs = "chunks (nat L) ?c (concat v)"
  have out: "emitted ''input_ids'' L examples = Inr ?bs"
    using emitted_packed [OF assms(1) assms(2) assms(3) assms(3)] assms(4) by simp
  have cc: "concat ?bs = take (?c * nat L) (concat v)"
    by (rule concat_chunks)
  have pre: "prefix (concat ?bs) (concat v)"
    unfolding cc by (rule take_is_prefix)
  have len: "length (concat ?bs) = min (length (concat v)) (?c * nat L)"
    unfolding cc by simp
  have lost: "length (concat v) - length (concat ?bs) < nat L"
    using block_count_drops [OF assms(1), of "length (concat v)"] assms(1)
    unfolding len by (simp add: min_def)
  have full: "L \<le> int (length (concat v))
                \<longrightarrow> concat ?bs = take (length (concat v) div nat L * nat L) (concat v)"
    unfolding cc by (simp add: block_count_def)
  from out pre lost full show ?thesis by blast
qed

theorem emitted_prefix_per_call_witness:
  "\<exists>bs. emitted ''input_ids'' 4
               [(''input_ids'', [[1, 2, 3], [4, 5, 6, 7, 8, 9]]),
                (''attention_mask'', [[1, 1, 1], [1, 1, 1, 1, 1, 1]])] = Inr bs
     \<and> prefix (concat bs) [1, 2, 3, 4, 5, 6, 7, 8, 9]
     \<and> length [1, 2, 3, 4, 5, 6, 7, 8, 9 :: int] - length (concat bs) < 4
     \<and> concat bs = [1, 2, 3, 4, 5, 6, 7, 8]"
  using emitted_prefix_per_call [of 4
      "[(''input_ids'', [[1, 2, 3], [4, 5, 6, 7, 8, 9]]),
        (''attention_mask'', [[1, 1, 1], [1, 1, 1, 1, 1, 1]])]"
      "''input_ids''" "[[1, 2, 3], [4, 5, 6, 7, 8, 9]]"
      "[(''attention_mask'', [[1, 1, 1], [1, 1, 1, 1, 1, 1]])]"
      "[[1, 2, 3], [4, 5, 6, 7, 8, 9]]"]
  by (simp add: dict_get_def)

section \<open>The labels are a copy of their own\<close>

subsection \<open>Allocation\<close>

lemma new_column_props:
  assumes "new_column s bs = (s', c)" and "wf_store s"
  shows "wf_store s'" and "c < length (columns s')" and "load s' c = bs"
    and "length (columns s) \<le> length (columns s')"
    and "\<forall>c' < length (columns s). load s' c' = load s c'"
proof -
  from assms(1) have s': "s' = s\<lparr>blocks := blocks s @ bs,
        columns := columns s @ [[length (blocks s) ..< length (blocks s) + length bs]]\<rparr>"
    and c: "c = length (columns s)"
    by (auto simp: new_column_def)
  show "wf_store s'"
    unfolding wf_store_def
  proof (intro allI impI ballI)
    fix c0 a assume c0: "c0 < length (columns s')" and a: "a \<in> set (columns s' ! c0)"
    show "a < length (blocks s')"
    proof (cases "c0 < length (columns s)")
      case True
      then have "a \<in> set (columns s ! c0)" using a by (simp add: s' nth_append)
      then have "a < length (blocks s)" using assms(2) True by (simp add: wf_store_def)
      then show ?thesis by (simp add: s')
    next
      case False
      then have "c0 = length (columns s)" using c0 by (simp add: s')
      then show ?thesis using a by (simp add: s' nth_append)
    qed
  qed
  show "c < length (columns s')" by (simp add: s' c)
  have "map (\<lambda>a. (blocks s @ bs) ! a) [length (blocks s) ..< length (blocks s) + length bs] = bs"
    by (rule nth_equalityI) (simp_all add: nth_append)
  then show "load s' c = bs" by (simp add: load_def s' c)
  show "length (columns s) \<le> length (columns s')" by (simp add: s')
  show "\<forall>c' < length (columns s). load s' c' = load s c'"
  proof (intro allI impI)
    fix c0 assume c0: "c0 < length (columns s)"
    have "\<forall>a \<in> set (columns s ! c0). a < length (blocks s)"
      using assms(2) c0 by (simp add: wf_store_def)
    then show "load s' c0 = load s c0"
      using c0 by (simp add: load_def s' nth_append)
  qed
qed

lemma new_dict_props:
  assumes "new_dict s d = (s', refs)" and "wf_store s"
  shows "wf_store s' \<and> length (columns s) \<le> length (columns s')
       \<and> (\<forall>c' < length (columns s). load s' c' = load s c')
       \<and> (\<forall>k c. dict_get refs k = Inr c \<longrightarrow>
             c < length (columns s') \<and> dict_get d k = Inr (load s' c))
       \<and> (\<forall>k. dict_get refs k = Inl KeyError \<longleftrightarrow> dict_get d k = Inl KeyError)"
  using assms
proof (induction d arbitrary: s s' refs)
  case Nil
  then show ?case by (auto simp: dict_get_def)
next
  case (Cons kb d)
  obtain k bs where kb: "kb = (k, bs)" by (cases kb)
  obtain s1 c where nc: "new_column s bs = (s1, c)" by (cases "new_column s bs")
  obtain s2 refs2 where nd: "new_dict s1 d = (s2, refs2)" by (cases "new_dict s1 d")
  from Cons.prems(1) have s': "s' = s2" and refs: "refs = (k, c) # refs2"
    by (simp_all add: kb nc nd)
  note C = new_column_props [OF nc Cons.prems(2)]
  note IH = Cons.IH [OF nd C(1)]
  have keep: "\<forall>c' < length (columns s). load s2 c' = load s c'"
    using IH C(4,5) by auto
  have cval: "load s2 c = bs" using IH C(2,3) by auto
  have clen: "c < length (columns s2)" using IH C(2) by auto
  show ?case
    unfolding s' refs kb
    using IH C(4) keep cval clen
    by (auto simp: dict_get_def split: option.splits)
qed

subsection \<open>The deep copy\<close>

lemma copy_blocks_props:
  assumes "copy_blocks s memo as = (s', cs)"
    and "n0 \<le> length (blocks s)"
    and "\<forall>a \<in> set as. a < n0"
    and "\<forall>(a, c) \<in> set memo. a < n0 \<and> n0 \<le> c \<and> c < length (blocks s)
                               \<and> blocks s ! c = blocks s ! a"
  shows "columns s' = columns s
       \<and> length (blocks s) \<le> length (blocks s')
       \<and> (\<forall>a < length (blocks s). blocks s' ! a = blocks s ! a)
       \<and> length cs = length as
       \<and> (\<forall>i < length as. n0 \<le> cs ! i \<and> cs ! i < length (blocks s')
                           \<and> blocks s' ! (cs ! i) = blocks s ! (as ! i))"
  using assms
proof (induction as arbitrary: s memo s' cs)
  case Nil
  then show ?case by simp
next
  case (Cons a as)
  have a0: "a < n0" using Cons.prems(3) by simp
  have as0: "\<forall>a \<in> set as. a < n0" using Cons.prems(3) by simp
  show ?case
  proof (cases "map_of memo a")
    case (Some c)
    obtain s1 cs1 where r: "copy_blocks s memo as = (s1, cs1)"
      by (cases "copy_blocks s memo as")
    from Cons.prems(1) Some r have s': "s' = s1" and cs: "cs = c # cs1" by simp_all
    note IH = Cons.IH [OF r Cons.prems(2) as0 Cons.prems(4)]
    from Some have "(a, c) \<in> set memo" by (rule map_of_SomeD)
    with Cons.prems(4) have c: "n0 \<le> c" "c < length (blocks s)" "blocks s ! c = blocks s ! a"
      by auto
    from IH c have hd: "n0 \<le> c \<and> c < length (blocks s1) \<and> blocks s1 ! c = blocks s ! a"
      by auto
    show ?thesis
      unfolding s' cs using IH hd by (auto simp: nth_Cons split: nat.splits)
  next
    case None
    let ?s = "s\<lparr>blocks := blocks s @ [blocks s ! a]\<rparr>"
    let ?memo = "(a, length (blocks s)) # memo"
    obtain s1 cs1 where r: "copy_blocks ?s ?memo as = (s1, cs1)"
      by (cases "copy_blocks ?s ?memo as")
    from Cons.prems(1) None r have s': "s' = s1" and cs: "cs = length (blocks s) # cs1"
      by simp_all
    have p2: "n0 \<le> length (blocks ?s)" using Cons.prems(2) by simp
    have p4: "\<forall>(a', c) \<in> set ?memo. a' < n0 \<and> n0 \<le> c \<and> c < length (blocks ?s)
                               \<and> blocks ?s ! c = blocks ?s ! a'"
      using Cons.prems(2,4) a0 by (auto simp: nth_append)
    note IH = Cons.IH [OF r p2 as0 p4]
    have keep: "\<forall>a' < length (blocks s). blocks s1 ! a' = blocks s ! a'"
      using IH by (auto simp: nth_append)
    have new: "blocks s1 ! length (blocks s) = blocks s ! a"
      using IH by (auto simp: nth_append)
    have asl: "\<forall>i < length as. as ! i < length (blocks s)"
      using as0 Cons.prems(2) nth_mem by fastforce
    have rest: "\<forall>i < length as. n0 \<le> cs1 ! i \<and> cs1 ! i < length (blocks s1)
                           \<and> blocks s1 ! (cs1 ! i) = blocks s ! (as ! i)"
      using IH asl by (simp add: nth_append)
    have len: "length (blocks s) < length (blocks s1)" using IH by auto
    show ?thesis
      unfolding s' cs using IH keep new rest len Cons.prems(2)
      by (auto simp: nth_Cons split: nat.splits)
  qed
qed

lemma deepcopy_props:
  assumes "deepcopy s c = (s', c')" and "wf_store s" and "c < length (columns s)"
  shows "c' = length (columns s)" and "c' < length (columns s')"
    and "load s' c' = load s c"
    and "\<forall>c0 < length (columns s). load s' c0 = load s c0"
    and "\<forall>c0 < length (columns s). columns s' ! c0 = columns s ! c0"
    and "\<forall>a \<in> set (columns s' ! c'). length (blocks s) \<le> a"
    and "\<forall>c0 < length (columns s). \<forall>a \<in> set (columns s' ! c0). a < length (blocks s)"
proof -
  obtain s1 cs where r: "copy_blocks s [] (columns s ! c) = (s1, cs)"
    by (cases "copy_blocks s [] (columns s ! c)")
  from assms(1) r have s': "s' = s1\<lparr>columns := columns s1 @ [cs]\<rparr>"
    and c': "c' = length (columns s1)"
    by (simp_all add: deepcopy_def)
  have valid: "\<forall>a \<in> set (columns s ! c). a < length (blocks s)"
    using assms(2,3) by (simp add: wf_store_def)
  have P: "columns s1 = columns s
       \<and> length (blocks s) \<le> length (blocks s1)
       \<and> (\<forall>a < length (blocks s). blocks s1 ! a = blocks s ! a)
       \<and> length cs = length (columns s ! c)
       \<and> (\<forall>i < length (columns s ! c). length (blocks s) \<le> cs ! i \<and> cs ! i < length (blocks s1)
                           \<and> blocks s1 ! (cs ! i) = blocks s ! (columns s ! c ! i))"
    using copy_blocks_props [OF r order_refl valid] by simp
  show "c' = length (columns s)" using P by (simp add: c')
  show "c' < length (columns s')" by (simp add: c' s')
  have "map (\<lambda>a. blocks s1 ! a) cs = map (\<lambda>a. blocks s ! a) (columns s ! c)"
    using P by (intro nth_equalityI) auto
  then show "load s' c' = load s c"
    by (simp add: load_def s' c')
  show "\<forall>c0 < length (columns s). load s' c0 = load s c0"
  proof (intro allI impI)
    fix c0 assume c0: "c0 < length (columns s)"
    have "\<forall>a \<in> set (columns s ! c0). a < length (blocks s)"
      using assms(2) c0 by (simp add: wf_store_def)
    then show "load s' c0 = load s c0"
      using c0 P by (simp add: load_def s' nth_append)
  qed
  show "\<forall>c0 < length (columns s). columns s' ! c0 = columns s ! c0"
    using P by (simp add: s' nth_append)
  show "\<forall>a \<in> set (columns s' ! c'). length (blocks s) \<le> a"
    using P by (auto simp: s' c' in_set_conv_nth)
  show "\<forall>c0 < length (columns s). \<forall>a \<in> set (columns s' ! c0). a < length (blocks s)"
    using P assms(2) by (simp add: s' nth_append wf_store_def)
qed

subsection \<open>Writes\<close>

lemma load_block_write:
  assumes "a \<notin> set (columns s ! c)"
  shows "load (s\<lparr>blocks := (blocks s)[a := xs]\<rparr>) c = load s c"
proof -
  have "\<forall>x \<in> set (columns s ! c). (blocks s)[a := xs] ! x = blocks s ! x"
    using assms by (auto intro!: nth_list_update_neq)
  then show ?thesis by (simp add: load_def)
qed

lemma load_column_write:
  assumes "c' \<noteq> c"
  shows "load (s\<lparr>columns := (columns s)[c' := as]\<rparr>) c = load s c"
  using assms by (simp add: load_def)

lemma wf_store_empty: "wf_store \<lparr>blocks = [], columns = []\<rparr>"
  by (simp add: wf_store_def)

lemma tokenize_store_Inr:
  assumes "tokenize_store L examples = Inr (s, refs)"
  obtains result s0 refs0 ia la where
    "packed L examples = Inr result"
    and "new_dict \<lparr>blocks = [], columns = []\<rparr> result = (s0, refs0)"
    and "dict_get refs0 ''input_ids'' = Inr ia"
    and "deepcopy s0 ia = (s, la)"
    and "refs = dict_set refs0 ''labels'' la"
proof -
  from assms obtain result where p: "packed L examples = Inr result"
    by (auto simp: tokenize_store_def split: sum.splits)
  obtain s0 refs0 where nd: "new_dict \<lparr>blocks = [], columns = []\<rparr> result = (s0, refs0)"
    by (cases "new_dict \<lparr>blocks = [], columns = []\<rparr> result")
  from assms p nd obtain ia where ia: "dict_get refs0 ''input_ids'' = Inr ia"
    by (auto simp: tokenize_store_def split: sum.splits)
  obtain s1 la where dc: "deepcopy s0 ia = (s1, la)" by (cases "deepcopy s0 ia")
  from assms p nd ia dc have "s = s1" and "refs = dict_set refs0 ''labels'' la"
    by (simp_all add: tokenize_store_def)
  with p nd ia dc that show thesis by blast
qed

text \<open>
  C7. In the result of \<open>tokenize\<close>, the \<open>labels\<close> column has the same blocks, element
  for element, as the \<open>input_ids\<close> column, and it is a deep copy: the two columns are
  different list objects and share no block, so replacing the contents of a block of
  one column, or of the column itself, leaves the value of the other column as it was.
\<close>

theorem labels_independent_copy:
  assumes "tokenize_store L examples = Inr (s, refs)"
  shows "\<exists>ia la. dict_get refs ''input_ids'' = Inr ia \<and> dict_get refs ''labels'' = Inr la
           \<and> load s la = load s ia
           \<and> la \<noteq> ia
           \<and> set (columns s ! la) \<inter> set (columns s ! ia) = {}
           \<and> (\<forall>a \<in> set (columns s ! la). \<forall>xs.
                 load (s\<lparr>blocks := (blocks s)[a := xs]\<rparr>) ia = load s ia)
           \<and> (\<forall>as. load (s\<lparr>columns := (columns s)[la := as]\<rparr>) ia = load s ia)
           \<and> (\<forall>a \<in> set (columns s ! ia). \<forall>xs.
                 load (s\<lparr>blocks := (blocks s)[a := xs]\<rparr>) la = load s la)
           \<and> (\<forall>as. load (s\<lparr>columns := (columns s)[ia := as]\<rparr>) la = load s la)"
proof -
  from assms obtain result s0 refs0 ia la where
    p: "packed L examples = Inr result"
    and nd: "new_dict \<lparr>blocks = [], columns = []\<rparr> result = (s0, refs0)"
    and ia: "dict_get refs0 ''input_ids'' = Inr ia"
    and dc: "deepcopy s0 ia = (s, la)"
    and refs: "refs = dict_set refs0 ''labels'' la"
    by (rule tokenize_store_Inr)
  note N = new_dict_props [OF nd wf_store_empty]
  have wf0: "wf_store s0" using N by blast
  have iav: "ia < length (columns s0)" using N ia by blast
  note D = deepcopy_props [OF dc wf0 iav]
  have g1: "dict_get refs ''input_ids'' = Inr ia"
    by (simp add: refs dict_get_dict_set ia)
  have g2: "dict_get refs ''labels'' = Inr la"
    by (simp add: refs dict_get_dict_set)
  have eq: "load s la = load s ia"
    using D(3) D(4) iav by simp
  have ne: "la \<noteq> ia" using D(1) iav by simp
  have hi: "\<forall>a \<in> set (columns s ! la). length (blocks s0) \<le> a" by (rule D(6))
  have lo: "\<forall>a \<in> set (columns s ! ia). a < length (blocks s0)" using D(7) iav by blast
  have disj: "set (columns s ! la) \<inter> set (columns s ! ia) = {}"
    using hi lo by fastforce
  have w1: "\<forall>a \<in> set (columns s ! la). \<forall>xs.
              load (s\<lparr>blocks := (blocks s)[a := xs]\<rparr>) ia = load s ia"
    using disj load_block_write by blast
  have w2: "\<forall>as. load (s\<lparr>columns := (columns s)[la := as]\<rparr>) ia = load s ia"
    using ne load_column_write by blast
  have w3: "\<forall>a \<in> set (columns s ! ia). \<forall>xs.
              load (s\<lparr>blocks := (blocks s)[a := xs]\<rparr>) la = load s la"
    using disj load_block_write by blast
  have w4: "\<forall>as. load (s\<lparr>columns := (columns s)[ia := as]\<rparr>) la = load s la"
    using ne load_column_write [of ia la] by blast
  from g1 g2 eq ne disj w1 w2 w3 w4 show ?thesis by blast
qed

theorem labels_independent_copy_witness:
  "tokenize_store 4 [(''input_ids'', [[1, 2, 3], [4, 5, 6, 7, 8, 9]]),
                     (''attention_mask'', [[1, 1, 1], [1, 1, 1, 1, 1, 1]])]
     = Inr (\<lparr>blocks = [[1, 2, 3, 4], [5, 6, 7, 8], [1, 1, 1, 1], [1, 1, 1, 1],
                        [1, 2, 3, 4], [5, 6, 7, 8]],
              columns = [[0, 1], [2, 3], [4, 5]]\<rparr>,
            [(''input_ids'', 0), (''attention_mask'', 1), (''labels'', 2)])
   \<and> (\<exists>ia la. dict_get [(''input_ids'', 0), (''attention_mask'', 1), (''labels'', 2)]
                  ''input_ids'' = Inr ia
        \<and> dict_get [(''input_ids'', 0), (''attention_mask'', 1), (''labels'', 2)]
                  ''labels'' = Inr la
        \<and> la \<noteq> ia
        \<and> load \<lparr>blocks = [[1, 2, 3, 4], [5, 6, 7, 8], [1, 1, 1, 1], [1, 1, 1, 1],
                           [1, 2, 3, 4], [5, 6, 7, 8]],
                 columns = [[0, 1], [2, 3], [4, 5]]\<rparr> la
          = load \<lparr>blocks = [[1, 2, 3, 4], [5, 6, 7, 8], [1, 1, 1, 1], [1, 1, 1, 1],
                             [1, 2, 3, 4], [5, 6, 7, 8]],
                   columns = [[0, 1], [2, 3], [4, 5]]\<rparr> ia)"
proof -
  have e: "tokenize_store 4 [(''input_ids'', [[1, 2, 3], [4, 5, 6, 7, 8, 9]]),
                     (''attention_mask'', [[1, 1, 1], [1, 1, 1, 1, 1, 1]])]
     = Inr (\<lparr>blocks = [[1, 2, 3, 4], [5, 6, 7, 8], [1, 1, 1, 1], [1, 1, 1, 1],
                        [1, 2, 3, 4], [5, 6, 7, 8]],
              columns = [[0, 1], [2, 3], [4, 5]]\<rparr>,
            [(''input_ids'', 0), (''attention_mask'', 1), (''labels'', 2)])"
    by code_simp
  from labels_independent_copy [OF e] e show ?thesis by blast
qed

subsection \<open>The store holds the values of the value model\<close>

lemma new_dict_values:
  assumes "new_dict s d = (s', refs)" and "wf_store s"
  shows "map (\<lambda>(k, c). (k, load s' c)) refs = d \<and> (\<forall>(k, c) \<in> set refs. c < length (columns s'))"
  using assms
proof (induction d arbitrary: s s' refs)
  case Nil
  then show ?case by simp
next
  case (Cons kb d)
  obtain k bs where kb: "kb = (k, bs)" by (cases kb)
  obtain s1 c where nc: "new_column s bs = (s1, c)" by (cases "new_column s bs")
  obtain s2 refs2 where nd: "new_dict s1 d = (s2, refs2)" by (cases "new_dict s1 d")
  from Cons.prems(1) have s': "s' = s2" and refs: "refs = (k, c) # refs2"
    by (simp_all add: kb nc nd)
  note C = new_column_props [OF nc Cons.prems(2)]
  note P = new_dict_props [OF nd C(1)]
  note IH = Cons.IH [OF nd C(1)]
  have "load s2 c = bs" using P C(2,3) by auto
  moreover have "c < length (columns s2)" using P C(2) by auto
  ultimately show ?case
    unfolding s' refs kb using IH by simp
qed

lemma map_dict_set:
  "map (\<lambda>(k, c). (k, g c)) (dict_set d k v) = dict_set (map (\<lambda>(k, c). (k, g c)) d) k (g v)"
  by (induction d k v rule: dict_set.induct) auto

lemma tokenize_store_refines:
  assumes "tokenize_store L examples = Inr (s, refs)"
  shows "tokenize L examples = Inr (map (\<lambda>(k, c). (k, load s c)) refs)"
proof -
  from assms obtain result s0 refs0 ia la where
    p: "packed L examples = Inr result"
    and nd: "new_dict \<lparr>blocks = [], columns = []\<rparr> result = (s0, refs0)"
    and ia: "dict_get refs0 ''input_ids'' = Inr ia"
    and dc: "deepcopy s0 ia = (s, la)"
    and refs: "refs = dict_set refs0 ''labels'' la"
    by (rule tokenize_store_Inr)
  note N = new_dict_props [OF nd wf_store_empty]
  note V = new_dict_values [OF nd wf_store_empty]
  have wf0: "wf_store s0" using N by blast
  have iav: "ia < length (columns s0)" using N ia by blast
  note D = deepcopy_props [OF dc wf0 iav]
  have ids: "dict_get result ''input_ids'' = Inr (load s0 ia)" using N ia by blast
  have "map (\<lambda>(k, c). (k, load s c)) refs0 = map (\<lambda>(k, c). (k, load s0 c)) refs0"
    using V D(4) by (intro map_cong) auto
  then have vals: "map (\<lambda>(k, c). (k, load s c)) refs0 = result" using V by simp
  have "map (\<lambda>(k, c). (k, load s c)) refs = dict_set result ''labels'' (load s0 ia)"
    by (simp add: refs map_dict_set vals D(3))
  then show ?thesis
    by (simp add: tokenize_def p ids)
qed

section \<open>Properties of the relative position bucket\<close>

lemma long_nonneg: "0 \<le> x \<Longrightarrow> 0 \<le> long x"
  by (simp add: long_def)

lemma long_mono: "0 \<le> x \<Longrightarrow> x \<le> y \<Longrightarrow> long x \<le> long y"
  by (simp add: long_def floor_mono)

lemma ln_4: "ln (4::real) = 2 * ln 2"
proof -
  have "ln ((2::real) ^ 2) = real 2 * ln 2"
    by (rule ln_realpow)
  then show ?thesis by simp
qed

text \<open>The two branches of an entry.\<close>

lemma bucket_small:
  assumes n: "n = max (neg64 rp) 0" and "n < nb div 2"
  shows "bucket_entry rp nb md = Inr n"
  unfolding bucket_entry_def Let_def n [symmetric]
  using assms(2) by simp

lemma bucket_large:
  assumes "2 \<le> nb" and "nb div 2 < md" and n: "n = max (neg64 rp) 0" and "nb div 2 \<le> n"
  shows "bucket_entry rp nb md =
           Inr (min (nb div 2
                     + long (ln (real_of_int n / real_of_int (nb div 2))
                             / ln (real_of_int md / real_of_int (nb div 2))
                             * real_of_int (nb - nb div 2)))
                    (nb - 1))"
proof -
  have me: "0 < nb div 2" using assms(1) by simp
  have ratio: "1 < real_of_int md / real_of_int (nb div 2)"
    using me assms(2) by simp
  then have lnr: "0 < ln (real_of_int md / real_of_int (nb div 2))"
    by simp
  have npos: "0 < real_of_int n / real_of_int (nb div 2)"
    using me assms(4) by simp
  have f3: "\<not> n < nb div 2" using assms(4) by simp
  have f4: "\<not> (real_of_int n / real_of_int (nb div 2) \<le> 0
                \<or> ln (real_of_int md / real_of_int (nb div 2)) = 0)"
    using npos lnr by simp
  show ?thesis
    unfolding bucket_entry_def Let_def n [symmetric]
    by (simp only: f3 f4 if_False)
qed

lemma large_arg_nonneg:
  assumes "2 \<le> nb" and "nb div 2 < md" and "nb div 2 \<le> n"
  shows "0 \<le> ln (real_of_int n / real_of_int (nb div 2))
             / ln (real_of_int md / real_of_int (nb div 2))
             * real_of_int (nb - nb div 2)"
proof -
  have me: "0 < nb div 2" using assms(1) by simp
  have "1 \<le> real_of_int n / real_of_int (nb div 2)"
    using me assms(3) by simp
  then have a: "0 \<le> ln (real_of_int n / real_of_int (nb div 2))" by simp
  have "1 < real_of_int md / real_of_int (nb div 2)"
    using me assms(2) by simp
  then have b: "0 < ln (real_of_int md / real_of_int (nb div 2))" by simp
  have c: "0 \<le> real_of_int (nb - nb div 2)" using assms(1) by simp
  from a b c show ?thesis by simp
qed

lemma large_arg_mono:
  assumes "2 \<le> nb" and "nb div 2 < md" and "nb div 2 \<le> n" and "n \<le> n'"
  shows "ln (real_of_int n / real_of_int (nb div 2))
           / ln (real_of_int md / real_of_int (nb div 2))
           * real_of_int (nb - nb div 2)
         \<le> ln (real_of_int n' / real_of_int (nb div 2))
             / ln (real_of_int md / real_of_int (nb div 2))
             * real_of_int (nb - nb div 2)"
proof -
  have me: "0 < nb div 2" using assms(1) by simp
  have pos: "0 < real_of_int n / real_of_int (nb div 2)"
    using me assms(3) by simp
  have le: "real_of_int n / real_of_int (nb div 2) \<le> real_of_int n' / real_of_int (nb div 2)"
    using me assms(4) by (simp add: divide_right_mono)
  have a: "ln (real_of_int n / real_of_int (nb div 2)) \<le> ln (real_of_int n' / real_of_int (nb div 2))"
    using ln_mono [OF le pos] .
  have "1 < real_of_int md / real_of_int (nb div 2)"
    using me assms(2) by simp
  then have b: "0 < ln (real_of_int md / real_of_int (nb div 2))" by simp
  have c: "0 \<le> real_of_int (nb - nb div 2)" using assms(1) by simp
  from a b have "ln (real_of_int n / real_of_int (nb div 2)) / ln (real_of_int md / real_of_int (nb div 2))
        \<le> ln (real_of_int n' / real_of_int (nb div 2)) / ln (real_of_int md / real_of_int (nb div 2))"
    by (simp add: divide_right_mono)
  then show ?thesis using c by (rule mult_right_mono)
qed

lemma entry_range:
  assumes "2 \<le> nb" and "nb div 2 < md"
  shows "\<exists>b. bucket_entry rp nb md = Inr b \<and> 0 \<le> b \<and> b < nb"
proof -
  define n where "n = max (neg64 rp) 0"
  have n0: "0 \<le> n" by (simp add: n_def)
  show ?thesis
  proof (cases "n < nb div 2")
    case True
    have "nb div 2 < nb" using assms(1) by simp
    then have "n < nb" using True by linarith
    then show ?thesis
      using bucket_small [OF n_def True] n0 by simp
  next
    case False
    then have large: "nb div 2 \<le> n" by simp
    let ?v = "ln (real_of_int n / real_of_int (nb div 2))
                / ln (real_of_int md / real_of_int (nb div 2)) * real_of_int (nb - nb div 2)"
    have "0 \<le> long ?v"
      using large_arg_nonneg [OF assms large] by (rule long_nonneg)
    moreover have "0 < nb div 2" using assms(1) by simp
    ultimately have "0 \<le> min (nb div 2 + long ?v) (nb - 1)"
      using assms(1) by simp
    moreover have "min (nb div 2 + long ?v) (nb - 1) < nb" by simp
    ultimately show ?thesis
      using bucket_large [OF assms n_def large] by simp
  qed
qed

lemma entry_mono:
  assumes "2 \<le> nb" and "nb div 2 < md" and le: "max (neg64 rp) 0 \<le> max (neg64 rp') 0"
    and b: "bucket_entry rp nb md = Inr b" and b': "bucket_entry rp' nb md = Inr b'"
  shows "b \<le> b'"
proof -
  define n where "n = max (neg64 rp) 0"
  define n' where "n' = max (neg64 rp') 0"
  have nn: "n \<le> n'" using le by (simp only: n_def n'_def)
  let ?v = "\<lambda>n. ln (real_of_int n / real_of_int (nb div 2))
              / ln (real_of_int md / real_of_int (nb div 2)) * real_of_int (nb - nb div 2)"
  show ?thesis
  proof (cases "n' < nb div 2")
    case True
    then have small: "n < nb div 2" using nn by linarith
    show ?thesis
      using bucket_small [OF n'_def True] bucket_small [OF n_def small] nn b b'
      by simp
  next
    case False
    then have large': "nb div 2 \<le> n'" by simp
    have e': "b' = min (nb div 2 + long (?v n')) (nb - 1)"
      using bucket_large [OF assms(1,2) n'_def large'] b' by simp
    have nonneg': "0 \<le> long (?v n')"
      using large_arg_nonneg [OF assms(1,2) large'] by (rule long_nonneg)
    show ?thesis
    proof (cases "n < nb div 2")
      case True
      have "nb div 2 \<le> nb - 1" using assms(1) by simp
      then have "n \<le> min (nb div 2 + long (?v n')) (nb - 1)"
        using True nonneg' by simp
      then show ?thesis
        using bucket_small [OF n_def True] b e' by simp
    next
      case False
      then have large: "nb div 2 \<le> n" by simp
      have "long (?v n) \<le> long (?v n')"
        using large_arg_nonneg [OF assms(1,2) large] large_arg_mono [OF assms(1,2) large nn]
        by (rule long_mono)
      then have "min (nb div 2 + long (?v n)) (nb - 1) \<le> min (nb div 2 + long (?v n')) (nb - 1)"
        by (intro min.mono) simp_all
      then show ?thesis
        using bucket_large [OF assms(1,2) n_def large] b e' by simp
    qed
  qed
qed

lemma all_or_error_map:
  assumes "\<forall>x \<in> set xs. \<exists>y. f x = Inr y"
  shows "\<exists>ys. all_or_error (map f xs) = Inr ys \<and> length ys = length xs
              \<and> (\<forall>i < length xs. f (xs ! i) = Inr (ys ! i))"
  using assms
proof (induction xs)
  case Nil
  then show ?case by simp
next
  case (Cons x xs)
  from Cons.prems obtain y where y: "f x = Inr y" by auto
  from Cons obtain ys where ys: "all_or_error (map f xs) = Inr ys" "length ys = length xs"
      "\<forall>i < length xs. f (xs ! i) = Inr (ys ! i)"
    by auto
  have "all_or_error (map f (x # xs)) = Inr (y # ys)"
    using y ys(1) by simp
  moreover have "\<forall>i < length (x # xs). f ((x # xs) ! i) = Inr ((y # ys) ! i)"
    using y ys(3) by (auto simp: nth_Cons split: nat.splits)
  ultimately show ?case using ys(2) by auto
qed

lemma bucket_tensor:
  assumes "2 \<le> nb" and "nb div 2 < md"
  shows "\<exists>bs. relative_position_bucket rps nb md = Inr bs \<and> length bs = length rps
              \<and> (\<forall>i < length rps. bucket_entry (rps ! i) nb md = Inr (bs ! i))"
proof -
  have me: "0 < nb div 2" using assms(1) by simp
  have ratio: "0 < real_of_int md / real_of_int (nb div 2)"
    using me assms(2) by simp
  have f1: "nb div 2 \<noteq> 0" using me by simp
  have f2: "\<not> real_of_int md / real_of_int (nb div 2) \<le> 0" using ratio by simp
  have eq: "relative_position_bucket rps nb md
              = all_or_error (map (\<lambda>r. bucket_entry r nb md) rps)"
    unfolding relative_position_bucket_def Let_def by (simp only: f1 f2 if_False)
  have "\<forall>r \<in> set rps. \<exists>b. bucket_entry r nb md = Inr b"
    using entry_range [OF assms] by blast
  from all_or_error_map [OF this] show ?thesis unfolding eq .
qed

lemma bucket_range:
  assumes "2 \<le> nb" and "nb div 2 < md"
    and "relative_position_bucket rps nb md = Inr bs" and "i < length rps"
  shows "0 \<le> bs ! i \<and> bs ! i < nb"
  using bucket_tensor [OF assms(1,2), of rps] entry_range [OF assms(1,2), of "rps ! i"] assms(3,4)
  by auto

lemma bucket_mono:
  assumes "2 \<le> nb" and "nb div 2 < md"
    and "relative_position_bucket rps nb md = Inr bs"
    and "i < length rps" and "j < length rps"
    and "max (neg64 (rps ! i)) 0 \<le> max (neg64 (rps ! j)) 0"
  shows "bs ! i \<le> bs ! j"
proof -
  from bucket_tensor [OF assms(1,2), of rps] assms(3)
  have "\<forall>i < length rps. bucket_entry (rps ! i) nb md = Inr (bs ! i)" by auto
  then have "bucket_entry (rps ! i) nb md = Inr (bs ! i)"
    and "bucket_entry (rps ! j) nb md = Inr (bs ! j)"
    using assms(4,5) by auto
  then show ?thesis using entry_mono [OF assms(1,2) assms(6)] by blast
qed

lemma bucket_example_past:
  "relative_position_bucket [0, - 1, - 2, - 4, - 8] 4 8 = Inr [0, 1, 2, 3, 3]"
proof -
  have b0: "bucket_entry 0 4 8 = Inr 0"
    using bucket_small [of 0 0 4 8] by (simp add: neg64_def)
  have b1: "bucket_entry (- 1) 4 8 = Inr 1"
    using bucket_small [of 1 "- 1" 4 8] by (simp add: neg64_def)
  have b2: "bucket_entry (- 2) 4 8 = Inr 2"
    using bucket_large [of 4 8 2 "- 2"] by (simp add: long_def neg64_def)
  have b4: "bucket_entry (- 4) 4 8 = Inr 3"
    using bucket_large [of 4 8 4 "- 4"] by (simp add: long_def ln_4 neg64_def)
  have b8: "bucket_entry (- 8) 4 8 = Inr 3"
    using bucket_large [of 4 8 8 "- 8"] by (simp add: long_def ln_4 neg64_def)
  show ?thesis
    using b0 b1 b2 b4 b8 by (simp add: relative_position_bucket_def)
qed

lemma bucket_example_future:
  "relative_position_bucket [0, 1, 2, 4, 8] 4 8 = Inr [0, 0, 0, 0, 0]"
proof -
  have "\<And>d. 0 \<le> d \<Longrightarrow> bucket_entry d 4 8 = Inr 0"
    using bucket_small [of 0 _ 4 8] by (simp add: neg64_def)
  then show ?thesis by (simp add: relative_position_bucket_def)
qed

text \<open>
  C5. With at least two buckets and a maximal distance beyond the exact range, every
  entry of the result lies in \<open>[0, num_buckets)\<close>, and an entry whose negated, clamped
  distance \<open>max (neg64 rp) 0\<close> is not smaller gets a bucket that is not smaller. With
  four buckets and maximal distance eight, the distances 0, 1, 2, 4, 8 behind the query
  map to the buckets 0, 1, 2, 3, 3, and the same distances ahead of the query all map to
  bucket 0.
\<close>

theorem relative_position_bucket_range_mono:
  assumes "2 \<le> nb" and "nb div 2 < md"
  shows "\<exists>bs. relative_position_bucket rps nb md = Inr bs
           \<and> length bs = length rps
           \<and> (\<forall>i < length rps. 0 \<le> bs ! i \<and> bs ! i < nb)
           \<and> (\<forall>i < length rps. \<forall>j < length rps.
                 max (neg64 (rps ! i)) 0 \<le> max (neg64 (rps ! j)) 0 \<longrightarrow> bs ! i \<le> bs ! j)
           \<and> relative_position_bucket [0, - 1, - 2, - 4, - 8] 4 8 = Inr [0, 1, 2, 3, 3]
           \<and> relative_position_bucket [0, 1, 2, 4, 8] 4 8 = Inr [0, 0, 0, 0, 0]"
proof -
  from bucket_tensor [OF assms, of rps] obtain bs where
    bs: "relative_position_bucket rps nb md = Inr bs"
    and len: "length bs = length rps"
    by blast
  have "\<forall>i < length rps. 0 \<le> bs ! i \<and> bs ! i < nb"
    using bucket_range [OF assms bs] by blast
  moreover have "\<forall>i < length rps. \<forall>j < length rps.
      max (neg64 (rps ! i)) 0 \<le> max (neg64 (rps ! j)) 0 \<longrightarrow> bs ! i \<le> bs ! j"
    using bucket_mono [OF assms bs] by blast
  ultimately show ?thesis
    using bs len bucket_example_past bucket_example_future by blast
qed

theorem relative_position_bucket_range_mono_witness:
  "\<exists>bs. relative_position_bucket [- 5, - 100, 3] 32 128 = Inr bs
     \<and> length bs = 3
     \<and> (\<forall>i < 3. 0 \<le> bs ! i \<and> bs ! i < 32)
     \<and> bs ! 0 \<le> bs ! 1 \<and> bs ! 2 \<le> bs ! 0"
proof -
  from relative_position_bucket_range_mono [of 32 128 "[- 5, - 100, 3]"]
  obtain bs where bs: "relative_position_bucket [- 5, - 100, 3] 32 128 = Inr bs"
    and len: "length bs = 3"
    and rng: "\<forall>i < 3. 0 \<le> bs ! i \<and> bs ! i < 32"
    and mono: "\<forall>i < 3. \<forall>j < 3. max (neg64 ([- 5, - 100, 3 :: int] ! i)) 0
                 \<le> max (neg64 ([- 5, - 100, 3] ! j)) 0 \<longrightarrow> bs ! i \<le> bs ! j"
    by auto
  have "bs ! 0 \<le> bs ! 1" using mono [rule_format, of 0 1] by (simp add: neg64_def)
  moreover have "bs ! 2 \<le> bs ! 0" using mono [rule_format, of 2 0] by (simp add: neg64_def)
  ultimately show ?thesis using bs len rng by blast
qed

section \<open>Properties of the modules\<close>

subsection \<open>Sequencing of fallible steps\<close>

lemma then_do_Inr: "then_do (Inr x) f = f x"
  by (simp add: then_do_def)

lemma then_do_Inl: "then_do (Inl e) f = Inl e"
  by (simp add: then_do_def)

lemma then_do_eq_Inr: "then_do m f = Inr y \<longleftrightarrow> (\<exists>x. m = Inr x \<and> f x = Inr y)"
  by (cases m) (simp_all add: then_do_def)

subsection \<open>Constructors\<close>

lemma Linear_init_Inr:
  "Linear_init a b c = Inr l \<longleftrightarrow>
     0 \<le> a \<and> 0 \<le> b \<and> l = \<lparr>in_features = nat a, out_features = nat b, has_bias = c\<rparr>"
  by (auto simp: Linear_init_def)

lemma LayerNorm_init_Inr:
  "LayerNorm_init a = Inr n \<longleftrightarrow> 0 \<le> a \<and> n = \<lparr>normalized_shape = nat a\<rparr>"
  by (auto simp: LayerNorm_init_def)

lemma Embedding_init_Inr:
  "Embedding_init a b = Inr e \<longleftrightarrow>
     0 \<le> a \<and> 0 \<le> b \<and> e = \<lparr>num_embeddings = nat a, embedding_dim = nat b\<rparr>"
  by (auto simp: Embedding_init_def)

lemma Attention_init_Inr:
  assumes "Attention_init dim' hds dim_head = Inr a"
  shows "0 \<le> dim'" and "0 \<le> hds" and "0 < dim_head"
    and "heads a = nat hds"
    and "to_q a = \<lparr>in_features = nat dim', out_features = nat hds * nat dim_head,
                    has_bias = False\<rparr>"
    and "to_kv a = \<lparr>in_features = nat dim', out_features = 2 * nat dim_head,
                     has_bias = False\<rparr>"
    and "to_out a = \<lparr>in_features = nat hds * nat dim_head, out_features = nat dim',
                      has_bias = True\<rparr>"
    and "num_buckets (rel_pos_bias a) = 32" and "max_distance (rel_pos_bias a) = 128"
    and "relative_attention_bias (rel_pos_bias a)
           = \<lparr>num_embeddings = 32, embedding_dim = nat hds\<rparr>"
proof -
  from assms have nz: "dim_head \<noteq> 0"
    by (auto simp: Attention_init_def split: if_splits)
  from assms nz obtain q kv out rel where
    q: "Linear_init dim' (hds * dim_head) False = Inr q"
    and kv: "Linear_init dim' (dim_head * 2) False = Inr kv"
    and out: "Linear_init (hds * dim_head) dim' True = Inr out"
    and rel: "T5RelativePositionBias_init (real_of_int dim_head powr (1 / 2)) 32 128 hds = Inr rel"
    and a: "a = \<lparr>heads = nat hds, scale = real_of_int dim_head powr (- 1 / 2),
                  to_q = q, to_kv = kv, to_out = out, rel_pos_bias = rel\<rparr>"
    by (auto simp: Attention_init_def Let_def then_do_eq_Inr)
  from rel obtain e where e: "Embedding_init 32 hds = Inr e"
    and rel': "rel = \<lparr>bias_scale = real_of_int dim_head powr (1 / 2), num_buckets = 32,
                       max_distance = 128, relative_attention_bias = e\<rparr>"
    by (auto simp: T5RelativePositionBias_init_def then_do_eq_Inr)
  from q show d0: "0 \<le> dim'" by (simp add: Linear_init_Inr)
  from e show h0: "0 \<le> hds" by (simp add: Embedding_init_Inr)
  from kv nz show dh: "0 < dim_head" by (simp add: Linear_init_Inr)
  show "heads a = nat hds" by (simp add: a)
  from q h0 dh show "to_q a = \<lparr>in_features = nat dim', out_features = nat hds * nat dim_head,
                    has_bias = False\<rparr>"
    by (simp add: a Linear_init_Inr nat_mult_distrib)
  from kv dh show "to_kv a = \<lparr>in_features = nat dim', out_features = 2 * nat dim_head,
                     has_bias = False\<rparr>"
    by (simp add: a Linear_init_Inr nat_mult_distrib)
  from out h0 dh show "to_out a = \<lparr>in_features = nat hds * nat dim_head, out_features = nat dim',
                      has_bias = True\<rparr>"
    by (simp add: a Linear_init_Inr nat_mult_distrib)
  show "num_buckets (rel_pos_bias a) = 32" by (simp add: a rel')
  show "max_distance (rel_pos_bias a) = 128" by (simp add: a rel')
  from e show "relative_attention_bias (rel_pos_bias a)
           = \<lparr>num_embeddings = 32, embedding_dim = nat hds\<rparr>"
    by (simp add: a rel' Embedding_init_Inr)
qed

lemma FeedForward_init_Inr:
  assumes "FeedForward_init dim' = Inr f"
  shows "net_in f = \<lparr>in_features = nat dim', out_features = 8 * nat dim', has_bias = True\<rparr>"
    and "net_out f = \<lparr>in_features = 4 * nat dim', out_features = nat dim', has_bias = True\<rparr>"
  using assms
  by (auto simp: FeedForward_init_def Let_def then_do_eq_Inr Linear_init_Inr nat_mult_distrib)

lemma layer_init_Inr:
  assumes "layer_init dim' hds dim_head = Inr l"
  shows "Attention_init dim' hds dim_head = Inr (pn_fn (res_fn (fst l)))"
    and "FeedForward_init dim' = Inr (pn_fn (res_fn (snd l)))"
    and "pn_norm (res_fn (fst l)) = \<lparr>normalized_shape = nat dim'\<rparr>"
    and "pn_norm (res_fn (snd l)) = \<lparr>normalized_shape = nat dim'\<rparr>"
  using assms
  by (auto simp: layer_init_def PreNorm_init_def then_do_eq_Inr LayerNorm_init_Inr)

lemma build_layers_Inr:
  "build_layers k dim' hds dim_head = Inr ls \<Longrightarrow>
     length ls = k \<and> (\<forall>l \<in> set ls. layer_init dim' hds dim_head = Inr l)"
proof (induction k arbitrary: ls)
  case 0
  then show ?case by simp
next
  case (Suc k)
  from Suc.prems obtain l ls' where l: "layer_init dim' hds dim_head = Inr l"
    and ls': "build_layers k dim' hds dim_head = Inr ls'" and ls: "ls = l # ls'"
    by (auto simp: then_do_eq_Inr)
  from Suc.IH [OF ls'] l ls show ?case by auto
qed

lemma Transformer_init_Inr:
  assumes "Transformer_init dim' depth hds dim_head = Inr t"
  shows "length (layers t) = nat depth"
    and "\<forall>l \<in> set (layers t). layer_init dim' hds dim_head = Inr l"
  using assms build_layers_Inr [of "nat depth" dim' hds dim_head "layers t"]
  by (auto simp: Transformer_init_def then_do_eq_Inr)

lemma LaMDA_init_Inr:
  assumes "LaMDA_init num_tokens dim' depth dim_head hds = Inr m"
  shows "0 \<le> num_tokens" and "0 \<le> dim'"
    and "token_emb m = \<lparr>num_embeddings = nat num_tokens, embedding_dim = nat dim'\<rparr>"
    and "Transformer_init dim' depth dim_head hds = Inr (transformer m)"
    and "to_logits_norm m = \<lparr>normalized_shape = nat dim'\<rparr>"
    and "to_logits_linear m
           = \<lparr>in_features = nat dim', out_features = nat num_tokens, has_bias = True\<rparr>"
  using assms
  by (auto simp: LaMDA_init_def then_do_eq_Inr Embedding_init_Inr LayerNorm_init_Inr
      Linear_init_Inr)

subsection \<open>Shapes through the forward passes\<close>

lemma Linear_forward_last:
  "in_features l = d \<Longrightarrow> Linear_forward l (xs @ [d]) = Inr (xs @ [out_features l])"
  by (simp add: Linear_forward_def)

lemma LayerNorm_forward_last:
  "normalized_shape n = d \<Longrightarrow> LayerNorm_forward n (xs @ [d]) = Inr (xs @ [d])"
  by (simp add: LayerNorm_forward_def)

lemma chunk2_even: "chunk2 (xs @ [2 * d]) = Inr (xs @ [d], xs @ [d])"
proof -
  have "2 * d \<noteq> 1" by presburger
  moreover have "(2 * d + 1) div 2 = d" by presburger
  ultimately show ?thesis by (simp add: chunk2_def Let_def)
qed

lemma broadcast_rev_same: "broadcast_rev xs xs = Inr xs"
  by (induction xs) (simp_all add: then_do_Inr)

lemma broadcast_same: "broadcast x x = Inr x"
  by (simp add: broadcast_def broadcast_rev_same then_do_Inr)

lemma broadcast_bias: "broadcast [b, h, i, j] [1, h, i, j] = Inr [b, h, i, j]"
  by (simp add: broadcast_def then_do_Inr)

lemma joined_same: "joined a a = a"
  by (simp add: joined_def)

lemma fits_same: "fits a a"
  by (simp add: fits_def)

lemma Attention_qkv_shapes:
  assumes "Attention_init dim' hds dim_head = Inr a" and "0 < hds"
  shows "Attention_qkv a [b, n, nat dim']
           = Inr ([b, nat hds, n, nat dim_head], [b, n, nat dim_head], [b, n, nat dim_head])"
proof -
  note A = Attention_init_Inr [OF assms(1)]
  have q: "Linear_forward (to_q a) [b, n, nat dim'] = Inr [b, n, nat hds * nat dim_head]"
    using Linear_forward_last [of "to_q a" "nat dim'" "[b, n]"] by (simp add: A)
  have kv: "Linear_forward (to_kv a) [b, n, nat dim'] = Inr [b, n, 2 * nat dim_head]"
    using Linear_forward_last [of "to_kv a" "nat dim'" "[b, n]"] by (simp add: A)
  have ch: "chunk2 [b, n, 2 * nat dim_head] = Inr ([b, n, nat dim_head], [b, n, nat dim_head])"
    using chunk2_even [of "[b, n]" "nat dim_head"] by simp
  have sp: "split_heads [b, n, nat hds * nat dim_head] (nat hds)
              = Inr [b, nat hds, n, nat dim_head]"
    using assms(2) by (simp add: split_heads_def)
  show ?thesis
    by (simp add: Attention_qkv_def q kv ch sp then_do_Inr A(4))
qed

lemma rel_pos_buckets:
  "\<exists>bs. relative_position_bucket (rel_pos i j) 32 128 = Inr bs
       \<and> (\<forall>x \<in> set bs. 0 \<le> x \<and> x < 32)"
proof -
  from bucket_tensor [of 32 128 "rel_pos i j"] obtain bs where
    bs: "relative_position_bucket (rel_pos i j) 32 128 = Inr bs"
    and len: "length bs = length (rel_pos i j)"
    by auto
  have "\<forall>k < length bs. 0 \<le> bs ! k \<and> bs ! k < 32"
    using bucket_range [of 32 128 "rel_pos i j" bs] bs len by simp
  then have "\<forall>x \<in> set bs. 0 \<le> x \<and> x < 32"
    by (auto simp: in_set_conv_nth)
  with bs show ?thesis by blast
qed

lemma T5RelativePositionBias_forward_shape:
  assumes "num_buckets t = 32" and "max_distance t = 128"
    and "relative_attention_bias t = \<lparr>num_embeddings = 32, embedding_dim = h\<rparr>"
  shows "T5RelativePositionBias_forward t [b, h, i, j] = Inr [b, h, i, j]"
proof -
  from rel_pos_buckets [of i j] obtain bs where
    bs: "relative_position_bucket (rel_pos i j) 32 128 = Inr bs"
    and rng: "\<forall>x \<in> set bs. 0 \<le> x \<and> x < 32"
    by blast
  have emb: "Embedding_forward (relative_attention_bias t) [i, j] bs = Inr [i, j, h]"
    using rng by (auto simp: Embedding_forward_def assms(3))
  show ?thesis
    using broadcast_bias [of b h i j]
    by (simp add: T5RelativePositionBias_forward_def assms(1,2) bs emb then_do_Inr)
qed

lemma Attention_forward_shape:
  assumes "Attention_init dim' hds dim_head = Inr a" and "0 < hds"
  shows "Attention_forward a [b, n, nat dim'] = Inr [b, n, nat dim']"
proof -
  note A = Attention_init_Inr [OF assms(1)]
  have sim: "einsum_qk [b, nat hds, n, nat dim_head] [b, n, nat dim_head]
               = Inr [b, nat hds, n, n]"
    by (simp add: einsum_qk_def fits_same joined_same)
  have bias: "T5RelativePositionBias_forward (rel_pos_bias a) [b, nat hds, n, n]
                = Inr [b, nat hds, n, n]"
    by (rule T5RelativePositionBias_forward_shape) (simp_all add: A)
  have av: "einsum_av [b, nat hds, n, n] [b, n, nat dim_head]
              = Inr [b, nat hds, n, nat dim_head]"
    by (simp add: einsum_av_def fits_same joined_same)
  have mh: "merge_heads [b, nat hds, n, nat dim_head] = Inr [b, n, nat hds * nat dim_head]"
    by (simp add: merge_heads_def)
  have out: "Linear_forward (to_out a) [b, n, nat hds * nat dim_head] = Inr [b, n, nat dim']"
    using Linear_forward_last [of "to_out a" "nat hds * nat dim_head" "[b, n]"]
    by (simp add: A)
  show ?thesis
    by (simp add: Attention_forward_def Attention_qkv_shapes [OF assms] sim bias av mh out
        then_do_Inr)
qed

lemma FeedForward_forward_shape:
  assumes "FeedForward_init dim' = Inr f"
  shows "FeedForward_forward f [b, n, nat dim'] = Inr [b, n, nat dim']"
proof -
  note F = FeedForward_init_Inr [OF assms]
  have l1: "Linear_forward (net_in f) [b, n, nat dim'] = Inr [b, n, 8 * nat dim']"
    using Linear_forward_last [of "net_in f" "nat dim'" "[b, n]"] by (simp add: F)
  have ch: "chunk2 [b, n, 8 * nat dim'] = Inr ([b, n, 4 * nat dim'], [b, n, 4 * nat dim'])"
    using chunk2_even [of "[b, n]" "4 * nat dim'"] by simp
  have g: "GEGLU_forward [b, n, 8 * nat dim'] = Inr [b, n, 4 * nat dim']"
    by (simp add: GEGLU_forward_def ch then_do_Inr broadcast_same)
  have l2: "Linear_forward (net_out f) [b, n, 4 * nat dim'] = Inr [b, n, nat dim']"
    using Linear_forward_last [of "net_out f" "4 * nat dim'" "[b, n]"] by (simp add: F)
  show ?thesis
    by (simp add: FeedForward_forward_def l1 g l2 then_do_Inr)
qed

subsection \<open>Multi-query projections\<close>

text \<open>
  C9. In an attention layer the queries come from a bias-free linear map from \<open>dim\<close> to
  \<open>heads * dim_head\<close>, split into \<open>heads\<close> heads of size \<open>dim_head\<close>; the keys and the
  values come from one bias-free linear map from \<open>dim\<close> to \<open>2 * dim_head\<close> whose output
  is cut in two, so there is one key and one value of size \<open>dim_head\<close> per position,
  without a head dimension, shared by all query heads.
\<close>

theorem Attention_multi_query:
  assumes "Attention_init dim' hds dim_head = Inr a"
  shows "to_q a = \<lparr>in_features = nat dim', out_features = nat hds * nat dim_head,
                    has_bias = False\<rparr>
       \<and> to_kv a = \<lparr>in_features = nat dim', out_features = 2 * nat dim_head,
                      has_bias = False\<rparr>
       \<and> (0 < hds \<longrightarrow>
            Attention_qkv a [b, n, nat dim']
              = Inr ([b, nat hds, n, nat dim_head], [b, n, nat dim_head], [b, n, nat dim_head]))"
  using Attention_init_Inr(5,6) [OF assms] Attention_qkv_shapes [OF assms]
  by blast

theorem Attention_multi_query_witness:
  "\<exists>a. Attention_init 512 8 64 = Inr a
      \<and> to_q a = \<lparr>in_features = 512, out_features = 512, has_bias = False\<rparr>
      \<and> to_kv a = \<lparr>in_features = 512, out_features = 128, has_bias = False\<rparr>
      \<and> Attention_qkv a [2, 10, 512] = Inr ([2, 8, 10, 64], [2, 10, 64], [2, 10, 64])"
proof -
  have "\<exists>a. Attention_init 512 8 64 = Inr a"
    by (simp add: Attention_init_def Linear_init_def T5RelativePositionBias_init_def
        Embedding_init_def then_do_def)
  then obtain a where a: "Attention_init 512 8 64 = Inr a" ..
  from Attention_multi_query [OF a, of 2 10] a show ?thesis by auto
qed

subsection \<open>The arguments of \<open>Transformer\<close> in \<open>LaMDA\<close>\<close>

text \<open>
  C3. \<open>LaMDA(num_tokens, dim, depth, dim_head, heads)\<close> builds the transformer that
  \<open>Transformer(dim, depth, heads = dim_head, dim_head = heads)\<close> builds: every attention
  layer has \<open>dim_head\<close> query heads, and its queries, keys and values have size \<open>heads\<close>
  per head.
\<close>

theorem LaMDA_transposes_heads:
  assumes "LaMDA_init num_tokens dim' depth dim_head hds = Inr m"
  shows "Transformer_init dim' depth dim_head hds = Inr (transformer m)
       \<and> length (layers (transformer m)) = nat depth
       \<and> (\<forall>l \<in> set (layers (transformer m)).
            heads (pn_fn (res_fn (fst l))) = nat dim_head
          \<and> out_features (to_q (pn_fn (res_fn (fst l)))) = nat dim_head * nat hds
          \<and> out_features (to_kv (pn_fn (res_fn (fst l)))) = 2 * nat hds
          \<and> (0 < dim_head \<longrightarrow>
               Attention_qkv (pn_fn (res_fn (fst l))) [b, n, nat dim']
                 = Inr ([b, nat dim_head, n, nat hds], [b, n, nat hds], [b, n, nat hds])))"
proof -
  note T = LaMDA_init_Inr(4) [OF assms]
  have "\<forall>l \<in> set (layers (transformer m)).
            heads (pn_fn (res_fn (fst l))) = nat dim_head
          \<and> out_features (to_q (pn_fn (res_fn (fst l)))) = nat dim_head * nat hds
          \<and> out_features (to_kv (pn_fn (res_fn (fst l)))) = 2 * nat hds
          \<and> (0 < dim_head \<longrightarrow>
               Attention_qkv (pn_fn (res_fn (fst l))) [b, n, nat dim']
                 = Inr ([b, nat dim_head, n, nat hds], [b, n, nat hds], [b, n, nat hds]))"
  proof
    fix l assume "l \<in> set (layers (transformer m))"
    then have "layer_init dim' dim_head hds = Inr l"
      using Transformer_init_Inr(2) [OF T] by blast
    then have a: "Attention_init dim' dim_head hds = Inr (pn_fn (res_fn (fst l)))"
      by (rule layer_init_Inr(1))
    note A = Attention_init_Inr [OF a]
    have "out_features (to_q (pn_fn (res_fn (fst l)))) = nat dim_head * nat hds"
      by (simp add: A(5))
    moreover have "out_features (to_kv (pn_fn (res_fn (fst l)))) = 2 * nat hds"
      by (simp add: A(6))
    ultimately show "heads (pn_fn (res_fn (fst l))) = nat dim_head
          \<and> out_features (to_q (pn_fn (res_fn (fst l)))) = nat dim_head * nat hds
          \<and> out_features (to_kv (pn_fn (res_fn (fst l)))) = 2 * nat hds
          \<and> (0 < dim_head \<longrightarrow>
               Attention_qkv (pn_fn (res_fn (fst l))) [b, n, nat dim']
                 = Inr ([b, nat dim_head, n, nat hds], [b, n, nat hds], [b, n, nat hds]))"
      using A(4) Attention_qkv_shapes [OF a] by blast
  qed
  then show ?thesis
    using T Transformer_init_Inr(1) [OF T] by blast
qed

theorem LaMDA_transposes_heads_witness:
  "\<exists>m. LaMDA_init 100 512 2 64 8 = Inr m
      \<and> length (layers (transformer m)) = 2
      \<and> (\<forall>l \<in> set (layers (transformer m)).
            heads (pn_fn (res_fn (fst l))) = 64
          \<and> out_features (to_kv (pn_fn (res_fn (fst l)))) = 16
          \<and> Attention_qkv (pn_fn (res_fn (fst l))) [1, 5, 512]
               = Inr ([1, 64, 5, 8], [1, 5, 8], [1, 5, 8]))"
proof -
  have "\<exists>m. LaMDA_init 100 512 2 64 8 = Inr m"
    by (simp add: LaMDA_init_def Transformer_init_def layer_init_def PreNorm_init_def
        FeedForward_init_def LayerNorm_init_def Attention_init_def Linear_init_def
        T5RelativePositionBias_init_def Embedding_init_def then_do_def eval_nat_numeral)
  then obtain m where m: "LaMDA_init 100 512 2 64 8 = Inr m" ..
  from LaMDA_transposes_heads [OF m, of 1 5] m show ?thesis by auto
qed

subsection \<open>The stack of layers\<close>

lemma Transformer_forward_append:
  "Transformer_forward (ls @ ls') x = Transformer_forward ls' (Transformer_forward ls x)"
  by (induction ls arbitrary: x) auto

lemma Transformer_forward_fold:
  assumes "\<forall>a b. add_sem S a b = add_sem S b a"
  shows "Transformer_forward (map (layer_fns S) ils) x
           = fold (\<lambda>(i, attn, ff) x.
                     let y = add_sem S x (attn_sem S i (pn_fn (res_fn attn))
                                            (attn_norm_sem S i (pn_norm (res_fn attn)) x))
                     in add_sem S y (ff_sem S i (pn_fn (res_fn ff))
                                       (ff_norm_sem S i (pn_norm (res_fn ff)) y)))
                  ils x"
proof (induction ils arbitrary: x)
  case Nil
  then show ?case by simp
next
  case (Cons il ils)
  let ?F = "\<lambda>(i, attn, ff) x.
              let y = add_sem S x (attn_sem S i (pn_fn (res_fn attn))
                                     (attn_norm_sem S i (pn_norm (res_fn attn)) x))
              in add_sem S y (ff_sem S i (pn_fn (res_fn ff))
                                (ff_norm_sem S i (pn_norm (res_fn ff)) y))"
  obtain i attn ff where il: "il = (i, attn, ff)" by (cases il) auto
  have comm: "\<And>a b. add_sem S a b = add_sem S b a" using assms by blast
  let ?y = "add_sem S x (attn_sem S i (pn_fn (res_fn attn))
                           (attn_norm_sem S i (pn_norm (res_fn attn)) x))"
  let ?z = "add_sem S ?y (ff_sem S i (pn_fn (res_fn ff))
                            (ff_norm_sem S i (pn_norm (res_fn ff)) ?y))"
  have a: "fst (layer_fns S il) x = ?y"
    unfolding il layer_fns_def Residual_forward_def PreNorm_forward_def
    by (simp only: prod.case fst_conv) (rule comm)
  have f: "snd (layer_fns S il) ?y = ?z"
    unfolding il layer_fns_def Residual_forward_def PreNorm_forward_def
    by (simp only: prod.case snd_conv) (rule comm)
  have "Transformer_forward (map (layer_fns S) (il # ils)) x
          = Transformer_forward (map (layer_fns S) ils) (snd (layer_fns S il) (fst (layer_fns S il) x))"
    by (cases "layer_fns S il") simp
  also have "\<dots> = Transformer_forward (map (layer_fns S) ils) ?z"
    by (simp only: a f)
  also have "\<dots> = fold ?F ils ?z"
    by (rule Cons.IH)
  also have "\<dots> = fold ?F (il # ils) x"
    by (simp add: il Let_def)
  finally show ?case .
qed

text \<open>
  C8. A transformer built with depth \<open>D\<close> has \<open>D\<close> layers, and its forward pass runs
  them in order, each one computing \<open>y = x + Attention(LayerNorm(x))\<close> and then
  \<open>y + FeedForward(LayerNorm(y))\<close>; what the first \<open>k\<close> layers compute does not depend
  on the later layers. The tensor addition is commutative, as the addition of floats
  is; the source writes \<open>fn(x) + x\<close>.
\<close>

theorem Transformer_forward_sequential:
  assumes "Transformer_init dim' depth hds dim_head = Inr t"
    and "\<forall>a b. add_sem S a b = add_sem S b a"
  shows "length (Transformer_fns S t) = nat depth
       \<and> Transformer_forward (Transformer_fns S t) x
           = fold (\<lambda>(i, attn, ff) x.
                     let y = add_sem S x (attn_sem S i (pn_fn (res_fn attn))
                                            (attn_norm_sem S i (pn_norm (res_fn attn)) x))
                     in add_sem S y (ff_sem S i (pn_fn (res_fn ff))
                                       (ff_norm_sem S i (pn_norm (res_fn ff)) y)))
                  (enumerate 0 (layers t)) x
       \<and> (\<forall>k. Transformer_forward (Transformer_fns S t) x
                = Transformer_forward (drop k (Transformer_fns S t))
                    (Transformer_forward (take k (Transformer_fns S t)) x))"
proof -
  have len: "length (Transformer_fns S t) = nat depth"
    using Transformer_init_Inr(1) [OF assms(1)] by (simp add: Transformer_fns_def)
  have "\<And>k. Transformer_forward (take k (Transformer_fns S t) @ drop k (Transformer_fns S t)) x
                = Transformer_forward (drop k (Transformer_fns S t))
                    (Transformer_forward (take k (Transformer_fns S t)) x)"
    by (rule Transformer_forward_append)
  then have pre: "\<forall>k. Transformer_forward (Transformer_fns S t) x
                = Transformer_forward (drop k (Transformer_fns S t))
                    (Transformer_forward (take k (Transformer_fns S t)) x)"
    by simp
  show ?thesis
    using len pre Transformer_forward_fold [OF assms(2), of "enumerate 0 (layers t)" x]
    by (simp add: Transformer_fns_def)
qed

theorem Transformer_forward_sequential_witness:
  "\<exists>t. Transformer_init 8 2 2 4 = Inr t
      \<and> length (Transformer_fns (\<lparr>add_sem = (+), attn_norm_sem = (\<lambda>i n x. x),
                                  attn_sem = (\<lambda>i a x. 2 * x), ff_norm_sem = (\<lambda>i n x. x),
                                  ff_sem = (\<lambda>i f x. x + 1)\<rparr> :: int semantics) t) = 2
      \<and> Transformer_forward (Transformer_fns \<lparr>add_sem = (+), attn_norm_sem = (\<lambda>i n x. x),
                                  attn_sem = (\<lambda>i a x. 2 * x), ff_norm_sem = (\<lambda>i n x. x),
                                  ff_sem = (\<lambda>i f x. x + 1)\<rparr> t) (1 :: int) = 43"
proof -
  let ?S = "\<lparr>add_sem = (+), attn_norm_sem = (\<lambda>i n x. x),
             attn_sem = (\<lambda>i a x. 2 * x), ff_norm_sem = (\<lambda>i n x. x),
             ff_sem = (\<lambda>i f x. x + 1)\<rparr> :: int semantics"
  have "\<exists>t. Transformer_init 8 2 2 4 = Inr t"
    by (simp add: Transformer_init_def layer_init_def PreNorm_init_def
        FeedForward_init_def LayerNorm_init_def Attention_init_def Linear_init_def
        T5RelativePositionBias_init_def Embedding_init_def then_do_def eval_nat_numeral)
  then obtain t where t: "Transformer_init 8 2 2 4 = Inr t" ..
  have comm: "\<forall>a b. add_sem ?S a b = add_sem ?S b a" by simp
  note seq = Transformer_forward_sequential [OF t comm, of 1]
  from seq have len: "length (layers t) = 2" by (simp add: Transformer_fns_def)
  then obtain l1 l2 where ls: "layers t = [l1, l2]"
    by (cases "layers t"; cases "tl (layers t)") auto
  obtain a1 f1 where l1: "l1 = (a1, f1)" by (cases l1)
  obtain a2 f2 where l2: "l2 = (a2, f2)" by (cases l2)
  from seq have "Transformer_forward (Transformer_fns ?S t) 1 = 43"
    by (simp add: ls l1 l2)
  with seq t show ?thesis by auto
qed

subsection \<open>The shape of the logits\<close>

lemma layer_fns_shape:
  assumes "layer_init dim' hds dim_head = Inr l" and "0 < hds"
  shows "snd (layer_fns shape_semantics (i, l))
           (fst (layer_fns shape_semantics (i, l)) (Inr [b, n, nat dim']))
         = Inr [b, n, nat dim']"
proof -
  obtain attn ff where l: "l = (attn, ff)" by (cases l)
  note L = layer_init_Inr [OF assms(1)]
  have n1: "LayerNorm_forward (pn_norm (res_fn attn)) [b, n, nat dim'] = Inr [b, n, nat dim']"
    using LayerNorm_forward_last [of "pn_norm (res_fn attn)" "nat dim'" "[b, n]"] L(3)
    by (simp add: l)
  have n2: "LayerNorm_forward (pn_norm (res_fn ff)) [b, n, nat dim'] = Inr [b, n, nat dim']"
    using LayerNorm_forward_last [of "pn_norm (res_fn ff)" "nat dim'" "[b, n]"] L(4)
    by (simp add: l)
  have at: "Attention_forward (pn_fn (res_fn attn)) [b, n, nat dim'] = Inr [b, n, nat dim']"
    using Attention_forward_shape [OF L(1) assms(2)] by (simp add: l)
  have fw: "FeedForward_forward (pn_fn (res_fn ff)) [b, n, nat dim'] = Inr [b, n, nat dim']"
    using FeedForward_forward_shape [OF L(2)] by (simp add: l)
  have a: "fst (layer_fns shape_semantics (i, l)) (Inr [b, n, nat dim']) = Inr [b, n, nat dim']"
    by (simp add: l layer_fns_def shape_semantics_def Residual_forward_def PreNorm_forward_def
        then_do_Inr n1 at broadcast_same)
  have f: "snd (layer_fns shape_semantics (i, l)) (Inr [b, n, nat dim']) = Inr [b, n, nat dim']"
    by (simp add: l layer_fns_def shape_semantics_def Residual_forward_def PreNorm_forward_def
        then_do_Inr n2 fw broadcast_same)
  show ?thesis by (simp only: a f)
qed

lemma Transformer_forward_shape:
  assumes "\<forall>l \<in> set ls. layer_init dim' hds dim_head = Inr l" and "0 < hds"
  shows "Transformer_forward (map (layer_fns shape_semantics) (enumerate k ls))
           (Inr [b, n, nat dim'])
         = Inr [b, n, nat dim']"
  using assms(1)
proof (induction ls arbitrary: k)
  case Nil
  then show ?case by simp
next
  case (Cons l ls)
  have l: "layer_init dim' hds dim_head = Inr l" using Cons.prems by simp
  have "Transformer_forward (map (layer_fns shape_semantics) (enumerate k (l # ls)))
          (Inr [b, n, nat dim'])
        = Transformer_forward (map (layer_fns shape_semantics) (enumerate (Suc k) ls))
            (snd (layer_fns shape_semantics (k, l))
               (fst (layer_fns shape_semantics (k, l)) (Inr [b, n, nat dim'])))"
    by (cases "layer_fns shape_semantics (k, l)") simp
  also have "\<dots> = Transformer_forward (map (layer_fns shape_semantics) (enumerate (Suc k) ls))
                     (Inr [b, n, nat dim'])"
    by (simp only: layer_fns_shape [OF l assms(2)])
  also have "\<dots> = Inr [b, n, nat dim']"
    using Cons.IH Cons.prems by simp
  finally show ?case .
qed

text \<open>
  C10. For a constructed model and a token tensor of shape \<open>(batch, length)\<close> whose
  entries all lie in \<open>[0, num_tokens)\<close>, the forward pass returns logits of shape
  \<open>(batch, length, num_tokens)\<close>, whatever \<open>batch\<close> and \<open>length\<close> are. The attention
  layers need at least one query head, which is the \<open>dim_head\<close> argument of \<open>LaMDA\<close>;
  a model without layers needs nothing.
\<close>

theorem LaMDA_forward_shape:
  assumes "LaMDA_init num_tokens dim' depth dim_head hds = Inr m"
    and "\<forall>e \<in> set entries. 0 \<le> e \<and> e < num_tokens"
    and "0 < dim_head \<or> depth \<le> 0"
  shows "LaMDA_forward m [batch, len] entries = Inr [batch, len, nat num_tokens]"
proof -
  note M = LaMDA_init_Inr [OF assms(1)]
  note T = Transformer_init_Inr [OF M(4)]
  have emb: "Embedding_forward (token_emb m) [batch, len] entries = Inr [batch, len, nat dim']"
    using assms(2) M(1) by (auto simp: Embedding_forward_def M(3))
  have tr: "Transformer_forward (Transformer_fns shape_semantics (transformer m))
              (Inr [batch, len, nat dim'])
            = Inr [batch, len, nat dim']"
  proof (cases "0 < dim_head")
    case True
    show ?thesis
      unfolding Transformer_fns_def
      by (rule Transformer_forward_shape [OF T(2) True])
  next
    case False
    with assms(3) have "layers (transformer m) = []" using T(1) by simp
    then show ?thesis by (simp add: Transformer_fns_def)
  qed
  have ln: "LayerNorm_forward (to_logits_norm m) [batch, len, nat dim']
              = Inr [batch, len, nat dim']"
    using LayerNorm_forward_last [of "to_logits_norm m" "nat dim'" "[batch, len]"]
    by (simp add: M(5))
  have lin: "Linear_forward (to_logits_linear m) [batch, len, nat dim']
               = Inr [batch, len, nat num_tokens]"
    using Linear_forward_last [of "to_logits_linear m" "nat dim'" "[batch, len]"]
    by (simp add: M(6))
  show ?thesis
    by (simp add: LaMDA_forward_def emb tr ln lin then_do_Inr)
qed

theorem LaMDA_forward_shape_witness:
  "\<exists>m. LaMDA_init 10 8 2 2 4 = Inr m
      \<and> LaMDA_forward m [2, 3] [1, 2, 3, 4, 5, 9] = Inr [2, 3, 10]"
proof -
  have "\<exists>m. LaMDA_init 10 8 2 2 4 = Inr m"
    by (simp add: LaMDA_init_def Transformer_init_def layer_init_def PreNorm_init_def
        FeedForward_init_def LayerNorm_init_def Attention_init_def Linear_init_def
        T5RelativePositionBias_init_def Embedding_init_def then_do_def eval_nat_numeral)
  then obtain m where m: "LaMDA_init 10 8 2 2 4 = Inr m" ..
  from LaMDA_forward_shape [OF m, of "[1, 2, 3, 4, 5, 9]" 2 3] m show ?thesis by auto
qed

section \<open>Configuration checks\<close>

lemma py_range_negative_step:
  assumes "L < 0" and "0 \<le> stop"
  shows "py_range 0 stop L = Inr []"
proof -
  have "- stop - L - 1 < - L" using assms(2) by simp
  moreover have "0 < - L" using assms(1) by simp
  ultimately have "(- stop - L - 1) div (- L) \<le> 0"
    by (smt (verit) div_neg_pos_less0 div_pos_pos_trivial)
  then show ?thesis using assms(1) by (simp add: py_range_def)
qed

lemma tokenize_zero_length:
  assumes "examples \<noteq> []"
  shows "tokenize 0 examples = Inl ZeroDivisionError"
proof -
  obtain k0 v0 rest where ex: "examples = (k0, v0) # rest"
    using assms by (cases examples) auto
  have "packed 0 examples = Inl ZeroDivisionError"
    by (simp add: packed_def ex dict_get_def)
  then show ?thesis by (simp add: tokenize_def)
qed

lemma tokenize_negative_length:
  assumes "L < 0" and "examples \<noteq> []" and "dict_get examples ''input_ids'' = Inr v"
  shows "tokenize L examples = Inr (dict_set (map (\<lambda>(k, w). (k, [])) examples) ''labels'' [])"
proof -
  obtain k0 v0 rest where ex: "examples = (k0, v0) # rest"
    using assms(2) by (cases examples) auto
  let ?n = "int (length (concat v0))"
  have "?n div L \<le> 0" using assms(1) by (simp add: div_nonneg_neg_le0)
  then have nonneg: "0 \<le> ?n div L * L"
    using assms(1) by (simp add: mult_nonpos_nonpos)
  have rg: "py_range 0 (?n div L * L) L = Inr []"
    by (rule py_range_negative_step [OF assms(1) nonneg])
  have t0: "dict_get (map (\<lambda>(k, v). (k, concat v)) ((k0, v0) # rest)) k0 = Inr (concat v0)"
    by (simp add: dict_get_def)
  have le: "L \<le> ?n" and nz: "L \<noteq> 0" using assms(1) by simp_all
  have p: "packed L ((k0, v0) # rest)
             = Inr (map (\<lambda>(k, w). (k, [])) ((k0, v0) # rest))"
    unfolding packed_def Let_def using t0 rg le nz
    by (simp add: case_prod_beta del: list.map)
  have g: "dict_get (map (\<lambda>(k, w). (k, [] :: int list list)) examples) ''input_ids'' = Inr []"
    using assms(3) dict_get_map [of "\<lambda>w. []" examples "''input_ids''"] by simp
  show ?thesis
    using p g by (simp add: tokenize_def ex del: list.map)
qed

text \<open>
  C6, as stated: a pipeline or model built with a sequence length, a batch size or a
  head size that is not positive is rejected when it is built. For the sequence length
  this fails: with \<open>tokenizer_seq_length = -2\<close> the dataloaders are built, and the packing
  of a batch then runs without any exception and returns empty columns.
\<close>

theorem stream_dataloaders_accepts_negative_length:
  "stream_dataloaders \<lparr>tokenizer_seq_length = - 2, batch_size = 8\<rparr>
     = Inr (\<lparr>dataset = tokenize (- 2), loader_batch_size = 8, drop_last = True\<rparr>,
            \<lparr>dataset = tokenize (- 2), loader_batch_size = 8, drop_last = True\<rparr>)
   \<and> tokenize (- 2) [(''input_ids'', [[1, 2, 3]]), (''attention_mask'', [[1, 1, 1]])]
       = Inr [(''input_ids'', []), (''attention_mask'', []), (''labels'', [])]"
  by (simp add: stream_dataloaders_def DataLoader_init_def then_do_def tokenize_def packed_def
      dict_get_def py_range_def)

text \<open>
  C6, amended: a batch size that is not positive is rejected when the dataloaders are
  built, and a head size that is not positive is rejected when an attention layer is
  built. The sequence length is not looked at when the dataloaders are built: with a
  positive batch size they are built for every sequence length. A sequence length of
  zero makes the packing of every batch raise \<open>ZeroDivisionError\<close>; with a negative
  sequence length the packing returns empty columns.
\<close>

theorem configuration_checks:
  "(batch_size args \<le> 0 \<longrightarrow> stream_dataloaders args = Inl ValueError)
   \<and> (dim_head \<le> 0 \<longrightarrow> (\<exists>e. Attention_init dim' hds dim_head = Inl e))
   \<and> (0 < batch_size args \<longrightarrow>
        (\<exists>train eval. stream_dataloaders args = Inr (train, eval)
           \<and> dataset train = tokenize (tokenizer_seq_length args)
           \<and> dataset eval = tokenize (tokenizer_seq_length args)))
   \<and> (examples \<noteq> [] \<longrightarrow> tokenize 0 examples = Inl ZeroDivisionError)
   \<and> (L < 0 \<and> examples \<noteq> [] \<and> dict_get examples ''input_ids'' = Inr v \<longrightarrow>
        tokenize L examples
          = Inr (dict_set (map (\<lambda>(k, w). (k, [])) examples) ''labels'' []))"
proof -
  have a: "batch_size args \<le> 0 \<longrightarrow> stream_dataloaders args = Inl ValueError"
    by (simp add: stream_dataloaders_def DataLoader_init_def then_do_def)
  have b: "dim_head \<le> 0 \<longrightarrow> (\<exists>e. Attention_init dim' hds dim_head = Inl e)"
  proof
    assume le: "dim_head \<le> 0"
    show "\<exists>e. Attention_init dim' hds dim_head = Inl e"
    proof (cases "Attention_init dim' hds dim_head")
      case (Inl e)
      then show ?thesis by blast
    next
      case (Inr a)
      from Attention_init_Inr(3) [OF Inr] le show ?thesis by simp
    qed
  qed
  have c: "0 < batch_size args \<longrightarrow>
        (\<exists>train eval. stream_dataloaders args = Inr (train, eval)
           \<and> dataset train = tokenize (tokenizer_seq_length args)
           \<and> dataset eval = tokenize (tokenizer_seq_length args))"
    by (simp add: stream_dataloaders_def DataLoader_init_def then_do_def)
  show ?thesis
    using a b c tokenize_zero_length tokenize_negative_length by blast
qed

theorem configuration_checks_witness:
  "stream_dataloaders \<lparr>tokenizer_seq_length = 4, batch_size = 0\<rparr> = Inl ValueError
   \<and> (\<exists>e. Attention_init 512 8 (- 64) = Inl e)
   \<and> (\<exists>train eval. stream_dataloaders \<lparr>tokenizer_seq_length = 0, batch_size = 8\<rparr>
          = Inr (train, eval) \<and> dataset train = tokenize 0)
   \<and> tokenize 0 [(''input_ids'', [[1, 2, 3]])] = Inl ZeroDivisionError
   \<and> tokenize (- 3) [(''input_ids'', [[1, 2, 3]])] = Inr [(''input_ids'', []), (''labels'', [])]"
proof -
  have 1: "stream_dataloaders \<lparr>tokenizer_seq_length = 4, batch_size = 0\<rparr> = Inl ValueError"
    using configuration_checks [of "\<lparr>tokenizer_seq_length = 4, batch_size = 0\<rparr>"] by simp
  have 2: "\<exists>e. Attention_init 512 8 (- 64) = Inl e"
    using configuration_checks [of _ "- 64" 512 8] by simp
  have 3: "\<exists>train eval. stream_dataloaders \<lparr>tokenizer_seq_length = 0, batch_size = 8\<rparr>
          = Inr (train, eval) \<and> dataset train = tokenize 0"
    using configuration_checks [of "\<lparr>tokenizer_seq_length = 0, batch_size = 8\<rparr>" 1 0 0 "[]" 0 "[]"]
    by auto
  have 4: "tokenize 0 [(''input_ids'', [[1, 2, 3]])] = Inl ZeroDivisionError"
    using configuration_checks [of _ _ _ _ "[(''input_ids'', [[1, 2, 3]])]"] by simp
  have 5: "tokenize (- 3) [(''input_ids'', [[1, 2, 3]])] = Inr [(''input_ids'', []), (''labels'', [])]"
    using configuration_checks [of _ _ _ _ "[(''input_ids'', [[1, 2, 3]])]" "- 3" "[[1, 2, 3]]"]
    by (simp add: dict_get_def)
  from 1 2 3 4 5 show ?thesis by blast
qed

section \<open>The causal mask\<close>

text \<open>
  For self-attention the score matrix is square, and the mask covers exactly the
  entries above the diagonal. What the softmax makes of the masked scores is a matter
  of floating-point rounding and is not modelled.
\<close>

lemma causal_mask_square:
  assumes "r < n" and "c < n"
  shows "causal_mask n n ! r ! c \<longleftrightarrow> r < c"
  using assms by (auto simp: causal_mask_def)

end
